theory Spec2Isabelle
  imports Complex_Main "HOL-Library.AList"
begin

section \<open>Log parser\<close>

text \<open>
  The embedding follows \<^verbatim>\<open>pytorch_model.py\<close>. A log line is a \<^typ>\<open>string\<close>, and a
  \<^typ>\<open>char\<close> is read as the code point of its number: the type holds the code points
  below 256, and text with other code points is outside the model. The character classes
  are the ones Python's \<open>re\<close> has on \<open>str\<close> patterns for these code points. Exceptions are
  values of \<open>error\<close>.
\<close>

datatype error = ValueError | KeyError

record datetime =
  year :: nat
  month :: nat
  day :: nat
  hour :: nat
  minute :: nat
  second :: nat

subsection \<open>Character classes\<close>

definition is_digit :: "char \<Rightarrow> bool" where
  "is_digit c = (c \<in> set ''0123456789'')"

definition is_hex :: "char \<Rightarrow> bool" where
  "is_hex c = (c \<in> set ''0123456789abcdefABCDEF'')"

text \<open>
  \<^verbatim>\<open>\w\<close> is Unicode-aware: besides the ASCII letters, digits and the underscore it
  holds the letters and numeric characters of the range U+0080 to U+00FF, which are
  U+00AA, U+00B2, U+00B3, U+00B5, U+00B9, U+00BA, U+00BC to U+00BE and U+00C0 to U+00FF
  without the two operators U+00D7 and U+00F7. \<^verbatim>\<open>\d\<close> has no member there but the ASCII
  digits.
\<close>

definition is_word :: "char \<Rightarrow> bool" where
  "is_word c =
     (c \<in> set ''abcdefghijklmnopqrstuvwxyzABCDEFGHIJKLMNOPQRSTUVWXYZ0123456789_'' \<or>
      (let n = (of_char c :: nat)
       in n \<in> {0xAA, 0xB2, 0xB3, 0xB5, 0xB9, 0xBA, 0xBC, 0xBD, 0xBE} \<or>
          (0xC0 \<le> n \<and> n \<noteq> 0xD7 \<and> n \<noteq> 0xF7)))"

definition newline :: char where
  "newline = CHR 0x0A"

subsection \<open>The event pattern of \<open>parse_log_line\<close>\<close>

text \<open>
  Group 1 is \<^verbatim>\<open>\d{4}-\d{2}-\d{2} \d{2}:\d{2}:\d{2}\<close>: nineteen characters, written here
  as a template in which \<open>d\<close> stands for a digit and every other character for itself.
\<close>

definition ts_template :: string where
  "ts_template = ''dddd-dd-dd dd:dd:dd''"

definition ts_at :: "string \<Rightarrow> bool" where
  "ts_at s = (19 \<le> length s \<and>
     list_all2 (\<lambda>p c. if p = CHR ''d'' then is_digit c else c = p) ts_template (take 19 s))"

text \<open>
  \<^verbatim>\<open>\b\<close> in front of a word character holds when the previous character is missing or
  is not a word character; behind a word character, when the next one is.
\<close>

definition boundary_before :: "char option \<Rightarrow> bool" where
  "boundary_before prev = (case prev of None \<Rightarrow> True | Some c \<Rightarrow> \<not> is_word c)"

definition boundary_after :: "string \<Rightarrow> bool" where
  "boundary_after rest = (case rest of [] \<Rightarrow> True | c # _ \<Rightarrow> \<not> is_word c)"

text \<open>First alternative of group 2: \<^verbatim>\<open>\bHRESULT = 0x[0-9a-fA-F]+\<close>, the digits greedy.\<close>

definition alt_hresult :: "char option \<Rightarrow> string \<Rightarrow> string option" where
  "alt_hresult prev s =
     (if boundary_before prev \<and> take 12 s = ''HRESULT = 0x'' \<and> takeWhile is_hex (drop 12 s) \<noteq> []
      then Some (''HRESULT = 0x'' @ takeWhile is_hex (drop 12 s)) else None)"

text \<open>Second and third alternative: \<^verbatim>\<open>\bError\b\<close> and \<^verbatim>\<open>\bWarning\b\<close>.\<close>

definition alt_word :: "string \<Rightarrow> char option \<Rightarrow> string \<Rightarrow> string option" where
  "alt_word w prev s =
     (if boundary_before prev \<and> take (length w) s = w \<and> boundary_after (drop (length w) s)
      then Some w else None)"

definition marker_here :: "char option \<Rightarrow> string \<Rightarrow> string option" where
  "marker_here prev s =
     (case alt_hresult prev s of Some m \<Rightarrow> Some m
      | None \<Rightarrow> (case alt_word ''Error'' prev s of Some m \<Rightarrow> Some m
                 | None \<Rightarrow> alt_word ''Warning'' prev s))"

text \<open>
  \<^verbatim>\<open>.*?(...)\<close>: the lazy star tries group 2 at the current position first and only then
  consumes one more character, which must not be a newline.
\<close>

fun lazy_marker :: "char option \<Rightarrow> string \<Rightarrow> string option" where
  "lazy_marker prev [] = marker_here prev []"
| "lazy_marker prev (c # cs) =
     (case marker_here prev (c # cs) of Some m \<Rightarrow> Some m
      | None \<Rightarrow> if c = newline then None else lazy_marker (Some c) cs)"

text \<open>
  The rest of the pattern behind a matched group 1 at the front of \<open>s\<close>: the character
  in front of the lazy star is the last digit of the timestamp.
\<close>

definition marker_after_ts :: "string \<Rightarrow> string option" where
  "marker_after_ts s = lazy_marker (Some (s ! 18)) (drop 19 s)"

text \<open>
  \<^verbatim>\<open>re.search\<close>: the leftmost start position at which the whole pattern matches. The
  result is (group 1, group 2).
\<close>

fun search :: "string \<Rightarrow> (string \<times> string) option" where
  "search [] = None"
| "search (c # cs) =
     (if ts_at (c # cs)
      then (case marker_after_ts (c # cs) of
              Some m \<Rightarrow> Some (take 19 (c # cs), m)
            | None \<Rightarrow> search cs)
      else search cs)"

subsection \<open>\<open>datetime.strptime\<close> with the format \<^verbatim>\<open>%Y-%m-%d %H:%M:%S\<close>\<close>

definition digit_val :: "char \<Rightarrow> nat" where
  "digit_val c = of_char c - 48"

definition number :: "string \<Rightarrow> nat" where
  "number ds = foldl (\<lambda>a c. 10 * a + digit_val c) 0 ds"

definition is_leap :: "nat \<Rightarrow> bool" where
  "is_leap y = (y mod 4 = 0 \<and> (y mod 100 \<noteq> 0 \<or> y mod 400 = 0))"

definition days_in_month :: "nat \<Rightarrow> nat \<Rightarrow> nat" where
  "days_in_month y m =
     (if m = 2 then (if is_leap y then 29 else 28)
      else if m \<in> {4, 6, 9, 11} then 30 else 31)"

text \<open>
  The program calls \<open>strptime\<close> on group 1 only, so the text has the nineteen-character
  shape and every field has its full width. The call raises \<open>ValueError\<close> unless the
  fields are a date of the proleptic Gregorian calendar in the years 1 to 9999 and a time
  of day: month 13, day 0, 30 February, hour 24, minute 60 and second 60 all raise.
\<close>

definition strptime :: "string \<Rightarrow> error + datetime" where
  "strptime s =
     (let y = number (take 4 s); mo = number (take 2 (drop 5 s));
          d = number (take 2 (drop 8 s)); h = number (take 2 (drop 11 s));
          mi = number (take 2 (drop 14 s)); sec = number (take 2 (drop 17 s))
      in if ts_at s \<and> length s = 19 \<and> 1 \<le> y \<and> 1 \<le> mo \<and> mo \<le> 12 \<and> 1 \<le> d
            \<and> d \<le> days_in_month y mo \<and> h \<le> 23 \<and> mi \<le> 59 \<and> sec \<le> 59
         then Inr \<lparr>year = y, month = mo, day = d, hour = h, minute = mi, second = sec\<rparr>
         else Inl ValueError)"

subsection \<open>\<open>parse_log_line\<close>\<close>

text \<open>
  The Python returns \<open>(timestamp, error_code)\<close> or \<open>(None, None)\<close>; the pair of absent
  values is \<open>None\<close> here. An exception of \<open>strptime\<close> is not caught.
\<close>

definition parse_log_line :: "string \<Rightarrow> error + (datetime \<times> string) option" where
  "parse_log_line line =
     (case search line of
        Some (g1, g2) \<Rightarrow>
          (case strptime g1 of
             Inl e \<Rightarrow> Inl e
           | Inr timestamp \<Rightarrow> Inr (Some (timestamp, g2)))
      | None \<Rightarrow> Inr None)"

section \<open>Log loader\<close>

text \<open>
  \<open>timestamp.timestamp()\<close> reads a naive \<open>datetime\<close> in the local time zone of the host,
  which the script does not set: the conversion is the parameter \<open>tz\<close>. The call raises
  \<open>ValueError\<close> where the search for the instant leaves the years 1 to 9999, and \<open>tz\<close>
  is \<open>None\<close> there. The values are whole seconds, held as floating-point numbers without
  rounding.

  \<open>utc_seconds\<close> is the arithmetic of \<open>_ymd2ord\<close> in the \<open>datetime\<close> module. A zone at a
  fixed offset east of UTC follows \<open>local_to_seconds\<close>: the local reading of the given
  fields taken as UTC must not pass the end of year 9999 or precede year 1, and the
  instant one day earlier, which the search for a repeated hour probes, must not precede
  year 1. With offset 0 this is a host running in UTC, where only the dates of 1 January
  of year 1 raise.
\<close>

definition days_before_year :: "nat \<Rightarrow> int" where
  "days_before_year y = (let p = int y - 1 in p * 365 + p div 4 - p div 100 + p div 400)"

definition days_before_month :: "nat \<Rightarrow> nat \<Rightarrow> int" where
  "days_before_month y m = int (sum_list (map (days_in_month y) [1..<m]))"

definition utc_seconds :: "datetime \<Rightarrow> int" where
  "utc_seconds t =
     (days_before_year (year t) + days_before_month (year t) (month t) + int (day t) - 719163)
       * 86400
     + int (hour t) * 3600 + int (minute t) * 60 + int (second t)"

definition fixed_offset_timestamp :: "int \<Rightarrow> datetime \<Rightarrow> real option" where
  "fixed_offset_timestamp seconds_east t =
     (let u = utc_seconds t
      in if - 62135596800 \<le> u + seconds_east \<and> u + seconds_east \<le> 253402300799 \<and>
            - 62135596800 \<le> u - 86400
         then Some (real_of_int (u - seconds_east)) else None)"

definition utc_timestamp :: "datetime \<Rightarrow> real option" where
  "utc_timestamp t = fixed_offset_timestamp 0 t"

text \<open>
  The four local variables of \<open>load_cbs_log\<close>. A Python \<open>dict\<close> keeps its keys in
  insertion order, so both dictionaries are association lists; \<open>len(error_map)\<close> is the
  length of the list.
\<close>

record loader_state =
  timestamps :: "real list"
  error_codes :: "nat list"
  error_map :: "(string \<times> nat) list"
  frequencies :: "(nat \<times> nat) list"

definition empty_state :: loader_state where
  "empty_state = \<lparr>timestamps = [], error_codes = [], error_map = [], frequencies = []\<rparr>"

text \<open>
  Lines 76 to 81: what one parsed event does to the state. The conversion of line 76
  comes first and its exception leaves the loop.
\<close>

definition record_event :: "(datetime \<Rightarrow> real option) \<Rightarrow> loader_state \<Rightarrow> datetime \<times> string \<Rightarrow> error + loader_state" where
  "record_event tz st ev =
     (let timestamp = fst ev; error_code = snd ev
      in case tz timestamp of
           None \<Rightarrow> Inl ValueError
         | Some seconds \<Rightarrow>
             (let em = (if map_of (error_map st) error_code = None
                        then error_map st @ [(error_code, length (error_map st) + 1)]
                        else error_map st)
              in case map_of em error_code of
                   None \<Rightarrow> Inl KeyError
                 | Some error_id \<Rightarrow>
                     Inr \<lparr>timestamps = timestamps st @ [seconds],
                          error_codes = error_codes st @ [error_id],
                          error_map = em,
                          frequencies =
                            AList.update error_id
                              ((case map_of (frequencies st) error_id of
                                  None \<Rightarrow> 0 | Some n \<Rightarrow> n) + 1)
                              (frequencies st)\<rparr>))"

text \<open>Lines 74 and 75: a line without an event leaves the state as it is.\<close>

definition loop_body :: "(datetime \<Rightarrow> real option) \<Rightarrow> loader_state \<Rightarrow> string \<Rightarrow> error + loader_state" where
  "loop_body tz st line =
     (case parse_log_line line of
        Inl e \<Rightarrow> Inl e
      | Inr None \<Rightarrow> Inr st
      | Inr (Some ev) \<Rightarrow> record_event tz st ev)"

text \<open>The \<open>for\<close> loop over \<open>enumerate(f)\<close> with its \<open>break\<close> at \<open>i >= max_lines\<close>.\<close>

fun scan :: "(datetime \<Rightarrow> real option) \<Rightarrow> nat \<Rightarrow> nat \<Rightarrow> string list \<Rightarrow> loader_state \<Rightarrow> error + loader_state" where
  "scan tz max_lines i [] st = Inr st"
| "scan tz max_lines i (line # rest) st =
     (if i \<ge> max_lines then Inr st
      else case loop_body tz st line of
             Inl e \<Rightarrow> Inl e
           | Inr st' \<Rightarrow> scan tz max_lines (i + 1) rest st')"

text \<open>Line 83: \<open>frequencies[error_code]\<close> for every collected ID.\<close>

fun lookup_all :: "(nat \<times> nat) list \<Rightarrow> nat list \<Rightarrow> error + nat list" where
  "lookup_all fr [] = Inr []"
| "lookup_all fr (k # ks) =
     (case map_of fr k of
        None \<Rightarrow> Inl KeyError
      | Some n \<Rightarrow> (case lookup_all fr ks of Inl e \<Rightarrow> Inl e | Inr ns \<Rightarrow> Inr (n # ns)))"

definition default_max_lines :: nat where
  "default_max_lines = 5000000000000000000000000"

text \<open>
  \<open>load_cbs_log\<close> on a file that could be opened, given as its lines. The result is
  (timestamps, error_codes, log_frequencies).
\<close>

definition load_cbs_log :: "(datetime \<Rightarrow> real option) \<Rightarrow> string list \<Rightarrow> nat \<Rightarrow> error + (real list \<times> nat list \<times> nat list)" where
  "load_cbs_log tz file max_lines =
     (case scan tz max_lines 0 file empty_state of
        Inl e \<Rightarrow> Inl e
      | Inr st \<Rightarrow>
          (case lookup_all (frequencies st) (error_codes st) of
             Inl e \<Rightarrow> Inl e
           | Inr log_frequencies \<Rightarrow> Inr (timestamps st, error_codes st, log_frequencies)))"

text \<open>\<open>np.column_stack\<close> of the three sequences: one row per index.\<close>

definition column_stack :: "real list \<times> nat list \<times> nat list \<Rightarrow> real list list" where
  "column_stack cols =
     (case cols of (ts, ids, fs) \<Rightarrow>
        map (\<lambda>i. [ts ! i, real (ids ! i), real (fs ! i)]) [0..<length ts])"

section \<open>Standardization and split\<close>

text \<open>
  Lines 90 to 93 call \<open>StandardScaler.fit_transform\<close> and \<open>train_test_split\<close> of
  scikit-learn. They are written here in exact real arithmetic, after the library's
  sources: the scaler takes the mean and the population variance of every column of the
  matrix it is given and divides by the square root of the variance. A column that it
  cannot tell from a constant one, its variance at most \<open>n * eps * var + (n * mean * eps)\<^sup>2\<close>
  with \<open>eps\<close> the spacing of double precision at 1, is divided by 1 instead. A matrix
  without rows is refused.
\<close>

definition mean :: "real list \<Rightarrow> real" where
  "mean xs = sum_list xs / real (length xs)"

definition variance :: "real list \<Rightarrow> real" where
  "variance xs = mean (map (\<lambda>x. (x - mean xs)\<^sup>2) xs)"

definition float_eps :: real where
  "float_eps = 1 / 2 ^ 52"

definition near_constant :: "real list \<Rightarrow> bool" where
  "near_constant xs =
     (let n = real (length xs)
      in variance xs \<le> n * float_eps * variance xs + (n * mean xs * float_eps)\<^sup>2)"

definition scale_of :: "real list \<Rightarrow> real" where
  "scale_of xs = (if near_constant xs then 1 else sqrt (variance xs))"

definition column :: "nat \<Rightarrow> real list list \<Rightarrow> real list" where
  "column j X = map (\<lambda>row. row ! j) X"

definition fit_transform :: "real list list \<Rightarrow> error + real list list" where
  "fit_transform X =
     (if X = [] then Inl ValueError
      else Inr (map (\<lambda>row. map (\<lambda>j. (row ! j - mean (column j X)) / scale_of (column j X))
                              [0..<length row]) X))"

text \<open>Lines 88 to 91: the loader, \<open>np.column_stack\<close> and the scaler, one after the other.\<close>

definition feature_matrix :: "(datetime \<Rightarrow> real option) \<Rightarrow> string list \<Rightarrow> nat \<Rightarrow> error + real list list" where
  "feature_matrix tz file max_lines =
     (case load_cbs_log tz file max_lines of
        Inl e \<Rightarrow> Inl e
      | Inr cols \<Rightarrow> fit_transform (column_stack cols))"

text \<open>
  \<open>train_test_split\<close> shuffles the rows with a seeded generator of the library and keeps
  all but \<open>ceil(0.1 * n)\<close> of them for training. Which rows these are is left open: the
  training set is the rows at a list of indices.
\<close>

definition train_rows :: "nat list \<Rightarrow> 'a list \<Rightarrow> 'a list" where
  "train_rows idx X = map (\<lambda>i. X ! i) idx"

section \<open>Threshold and labels\<close>

text \<open>
  Lines 142 to 144. \<open>np.percentile(a, 95)\<close> with the default linear method, in exact real
  arithmetic: the virtual index \<open>0.95 * (n - 1)\<close> is split into its integer part \<open>j\<close> and
  its fraction, and the result lies that fraction of the way from the \<open>j\<close>-th to the next
  order statistic. An empty vector has no percentile.
\<close>

definition percentile95 :: "real list \<Rightarrow> real option" where
  "percentile95 a =
     (if a = [] then None
      else let s = sort a; n = length a; j = (95 * (n - 1)) div 100;
               g = real ((95 * (n - 1)) mod 100) / 100
           in Some (s ! j + g * (s ! min (j + 1) (n - 1) - s ! j)))"

text \<open>\<open>(errors > threshold).astype(int)\<close>\<close>

definition labels :: "real \<Rightarrow> real list \<Rightarrow> nat list" where
  "labels threshold errors = map (\<lambda>e. if e > threshold then 1 else 0) errors"

text \<open>The three assignments together: (threshold, y_train, y_test).\<close>

definition derive_labels :: "real list \<Rightarrow> real list \<Rightarrow> (real \<times> nat list \<times> nat list) option" where
  "derive_labels train_errors test_errors =
     (case percentile95 train_errors of
        None \<Rightarrow> None
      | Some threshold \<Rightarrow>
          Some (threshold, labels threshold train_errors, labels threshold test_errors))"

section \<open>Vocabulary of the properties\<close>








text \<open>The events of a list of lines, in line order, and the keys of a list in the order
  of their first occurrence.\<close>

definition events :: "string list \<Rightarrow> (datetime \<times> string) list" where
  "events ls =
     List.map_filter (\<lambda>l. case parse_log_line l of Inr (Some ev) \<Rightarrow> Some ev | _ \<Rightarrow> None) ls"

definition first_seen :: "'a list \<Rightarrow> 'a list" where
  "first_seen xs = rev (remdups (rev xs))"

text \<open>
  The loop invariant: what the four variables hold once the events \<open>evs\<close> have been
  recorded.
\<close>

definition tracks :: "(datetime \<Rightarrow> real option) \<Rightarrow> (datetime \<times> string) list \<Rightarrow> loader_state \<Rightarrow> bool" where
  "tracks tz evs st \<longleftrightarrow>
     map Some (timestamps st) = map (\<lambda>ev. tz (fst ev)) evs \<and>
     map fst (error_map st) = first_seen (map snd evs) \<and>
     map snd (error_map st) = [1..<Suc (length (error_map st))] \<and>
     list_all2 (\<lambda>ev k. map_of (error_map st) (snd ev) = Some k) evs (error_codes st) \<and>
     (\<forall>k. map_of (frequencies st) k =
        (if k \<in> set (error_codes st) then Some (count_list (error_codes st) k) else None)) \<and>
     sum_list (map snd (frequencies st)) = length (error_codes st) \<and>
     distinct (map fst (frequencies st))"

section \<open>Sample inputs\<close>

text \<open>A log of four lines, three of which hold an event, and the state the loop leaves
  on a host running in UTC.\<close>

definition sample_log :: "string list" where
  "sample_log =
     [''2024-01-15 10:30:00, Error CBS Failed to load'',
      ''plain text without an event'',
      ''2024-01-15 10:30:02, Info [HRESULT = 0x80070002 - ERROR_FILE_NOT_FOUND]'',
      ''2024-01-15 10:30:04, Error CSI again'']"

definition sample_state :: loader_state where
  "sample_state =
     \<lparr>timestamps = [1705314600, 1705314602, 1705314604], error_codes = [1, 2, 1],
      error_map = [(''Error'', 1), (''HRESULT = 0x80070002'', 2)],
      frequencies = [(1, 2), (2, 1)]\<rparr>"

text \<open>One column after the scaler: centred on its mean, divided by its scale.\<close>

definition standardized :: "real list \<Rightarrow> real list" where
  "standardized xs = map (\<lambda>x. (x - mean xs) / scale_of xs) xs"

text \<open>Two events with the same code, two seconds apart.\<close>

definition two_event_log :: "string list" where
  "two_event_log = [''2024-01-15 10:30:00, Error CBS'', ''2024-01-15 10:30:02, Error CSI'']"

text \<open>Equations that evaluate the parser and the loader on a concrete log.\<close>

lemmas parser_eval =
  parse_log_line_def marker_after_ts_def ts_at_def ts_template_def is_digit_def is_hex_def
  is_word_def newline_def marker_here_def alt_hresult_def alt_word_def boundary_before_def
  boundary_after_def strptime_def number_def digit_val_def days_in_month_def is_leap_def

lemmas loader_eval =
  load_cbs_log_def loop_body_def record_event_def empty_state_def utc_timestamp_def
  fixed_offset_timestamp_def utc_seconds_def days_before_year_def days_before_month_def
  upt_rec

section \<open>The event pattern, by positions\<close>


lemma marker_here_Nil [simp]: "marker_here prev [] = None"
  by (simp add: marker_here_def alt_hresult_def alt_word_def)










section \<open>The loop invariant\<close>

lemma first_seen_snoc:
  "first_seen (xs @ [x]) = (if x \<in> set xs then first_seen xs else first_seen xs @ [x])"
  by (simp add: first_seen_def)

lemma set_first_seen [simp]: "set (first_seen xs) = set xs"
  by (simp add: first_seen_def)

lemma distinct_first_seen [simp]: "distinct (first_seen xs)"
  by (simp add: first_seen_def)

lemma sum_snd_update:
  "sum_list (map snd (AList.update k v al)) + (case map_of al k of None \<Rightarrow> 0 | Some w \<Rightarrow> w)
     = sum_list (map snd al) + (v::nat)"
  by (induction al) (auto)

lemma tracks_empty: "tracks tz [] empty_state"
  by (simp add: tracks_def empty_state_def first_seen_def)

lemma tracks_ids_range:
  assumes "tracks tz evs st" and "k \<in> set (error_codes st)"
  shows "1 \<le> k \<and> k \<le> length (error_map st)"
proof -
  from assms(1) have m: "list_all2 (\<lambda>ev k. map_of (error_map st) (snd ev) = Some k) evs (error_codes st)"
    and v: "map snd (error_map st) = [1..<Suc (length (error_map st))]"
    unfolding tracks_def by blast+
  from assms(2) m obtain c where "map_of (error_map st) c = Some k"
    by (auto simp: list_all2_conv_all_nth in_set_conv_nth)
  then have "(c, k) \<in> set (error_map st)" by (rule map_of_SomeD)
  then have "k \<in> set (map snd (error_map st))" by force
  with v show ?thesis by auto
qed

lemma count_list_snoc: "count_list (xs @ [x]) k = count_list xs k + (if x = k then 1 else 0)"
  by (induction xs) auto

lemma tracks_step:
  assumes t: "tracks tz evs st" and z: "tz (fst ev) = Some seconds"
  shows "\<exists>st'. record_event tz st ev = Inr st' \<and> tracks tz (evs @ [ev]) st'"
proof -
  obtain dt code where ev: "ev = (dt, code)" by (cases ev)
  let ?em = "error_map st" and ?ids = "error_codes st" and ?fr = "frequencies st"
  let ?codes = "map snd evs"
  from t have keys: "map fst ?em = first_seen ?codes"
    and vals: "map snd ?em = [1..<Suc (length ?em)]"
    and ids: "list_all2 (\<lambda>ev k. map_of ?em (snd ev) = Some k) evs ?ids"
    and fr: "\<And>k. map_of ?fr k = (if k \<in> set ?ids then Some (count_list ?ids k) else None)"
    and sm: "sum_list (map snd ?fr) = length ?ids"
    and ts: "map Some (timestamps st) = map (\<lambda>ev. tz (fst ev)) evs"
    unfolding tracks_def by blast+
  have dom: "fst ` set ?em = set ?codes"
    using keys by (metis set_first_seen set_map)
  define em' where "em' = (if map_of ?em code = None then ?em @ [(code, length ?em + 1)] else ?em)"
  have "\<exists>error_id. map_of em' code = Some error_id"
    by (cases "map_of ?em code") (simp_all add: em'_def map_add_def)
  then obtain error_id where lk: "map_of em' code = Some error_id" ..
  define n where "n = (case map_of ?fr error_id of None \<Rightarrow> 0 | Some n \<Rightarrow> n)"
  define st' where "st' = \<lparr>timestamps = timestamps st @ [seconds], error_codes = ?ids @ [error_id],
     error_map = em', frequencies = AList.update error_id (n + 1) ?fr\<rparr>"
  have step: "record_event tz st ev = Inr st'"
    using lk z by (simp add: record_event_def ev em'_def st'_def n_def Let_def)
  have n: "n = count_list ?ids error_id"
    by (simp add: n_def fr)
  have old: "map_of em' c = Some k" if "map_of ?em c = Some k" for c k
    using that by (auto simp: em'_def map_add_def)
  have c1: "map Some (timestamps st') = map (\<lambda>ev. tz (fst ev)) (evs @ [ev])"
    using z by (simp add: st'_def ts)
  have c2: "map fst (error_map st') = first_seen (map snd (evs @ [ev]))"
  proof (cases "map_of ?em code")
    case None
    then have "code \<notin> set ?codes" using dom by (simp add: map_of_eq_None_iff)
    with None show ?thesis by (simp add: st'_def em'_def ev first_seen_snoc keys)
  next
    case (Some a)
    then have "(code, a) \<in> set ?em" by (rule map_of_SomeD)
    then have "code \<in> set ?codes" using dom by force
    with Some show ?thesis by (simp add: st'_def em'_def ev first_seen_snoc keys)
  qed
  have c3: "map snd (error_map st') = [1..<Suc (length (error_map st'))]"
  proof (cases "map_of ?em code")
    case None
    have "[1..<Suc (Suc (length ?em))] = [1..<Suc (length ?em)] @ [Suc (length ?em)]"
      by simp
    with None vals show ?thesis by (simp add: st'_def em'_def del: upt_Suc)
  next
    case (Some a)
    with vals show ?thesis by (simp add: st'_def em'_def del: upt_Suc)
  qed
  have "list_all2 (\<lambda>ev k. map_of em' (snd ev) = Some k) evs ?ids"
    using ids by (rule list_all2_mono) (simp add: old)
  then have c4: "list_all2 (\<lambda>ev k. map_of (error_map st') (snd ev) = Some k) (evs @ [ev]) (error_codes st')"
    using lk by (simp add: st'_def ev list_all2_appendI)
  have c5: "map_of (frequencies st') k =
      (if k \<in> set (error_codes st') then Some (count_list (error_codes st') k) else None)" for k
    by (simp add: st'_def update_conv' fr n count_list_snoc)
  have "sum_list (map snd (frequencies st')) + n = sum_list (map snd ?fr) + (n + 1)"
    using sum_snd_update [of error_id "n + 1" ?fr] by (simp add: st'_def n_def)
  then have c6: "sum_list (map snd (frequencies st')) = length (error_codes st')"
    by (simp add: sm st'_def)
  from t have "distinct (map fst ?fr)"
    unfolding tracks_def by blast
  then have c7: "distinct (map fst (frequencies st'))"
    by (simp add: st'_def distinct_update)
  from c1 c2 c3 c4 c5 c6 c7 have "tracks tz (evs @ [ev]) st'"
    unfolding tracks_def by blast
  with step show ?thesis by blast
qed


lemma events_Nil [simp]: "events [] = []"
  by (simp add: events_def)

lemma events_Cons:
  "events (l # ls) = (case parse_log_line l of Inr (Some ev) \<Rightarrow> ev # events ls | _ \<Rightarrow> events ls)"
  by (simp add: events_def split: sum.splits option.splits)

lemma record_event_None: "tz (fst ev) = None \<Longrightarrow> record_event tz st ev = Inl ValueError"
  by (simp add: record_event_def)

lemma record_event_tracks:
  assumes "tracks tz evs st" and "record_event tz st ev = Inr st'"
  shows "tracks tz (evs @ [ev]) st'"
proof (cases "tz (fst ev)")
  case None
  with assms(2) show ?thesis by (simp add: record_event_None)
next
  case (Some seconds)
  from tracks_step [OF assms(1) Some] assms(2) show ?thesis by auto
qed

lemma record_event_Inl:
  assumes "tracks tz evs st" and "record_event tz st ev = Inl e"
  shows "e = ValueError \<and> tz (fst ev) = None"
proof (cases "tz (fst ev)")
  case None
  with assms(2) show ?thesis by (simp add: record_event_None)
next
  case (Some seconds)
  from tracks_step [OF assms(1) Some] assms(2) show ?thesis by auto
qed

lemma scan_tracks:
  "tracks tz evs st \<Longrightarrow> scan tz m i ls st = Inr st' \<Longrightarrow>
     tracks tz (evs @ events (take (m - i) ls)) st'"
proof (induction ls arbitrary: i st evs)
  case Nil
  then show ?case by simp
next
  case (Cons l ls)
  show ?case
  proof (cases "m \<le> i")
    case True
    with Cons.prems show ?thesis by simp
  next
    case False
    then have m: "m - i = Suc (m - Suc i)" by simp
    show ?thesis
    proof (cases "parse_log_line l")
      case (Inl e)
      with Cons.prems False show ?thesis by (simp add: loop_body_def)
    next
      case (Inr r)
      show ?thesis
      proof (cases r)
        case None
        with Inr False Cons.prems have "scan tz m (Suc i) ls st = Inr st'"
          by (simp add: loop_body_def)
        from Cons.IH [OF Cons.prems(1) this] show ?thesis
          by (simp add: m events_Cons Inr None)
      next
        case (Some ev)
        from Inr Some False Cons.prems(2)
        obtain st1 where r: "record_event tz st ev = Inr st1"
          by (cases "record_event tz st ev") (simp_all add: loop_body_def)
        from record_event_tracks [OF Cons.prems(1) r] have t: "tracks tz (evs @ [ev]) st1" .
        from r Inr Some False Cons.prems have "scan tz m (Suc i) ls st1 = Inr st'"
          by (simp add: loop_body_def)
        from Cons.IH [OF t this] show ?thesis
          by (simp add: m events_Cons Inr Some)
      qed
    qed
  qed
qed

lemma scan_error:
  "tracks tz evs st \<Longrightarrow> scan tz m i ls st = Inl e \<Longrightarrow>
     (\<exists>l \<in> set (take (m - i) ls). parse_log_line l = Inl e) \<or>
     e = ValueError \<and> (\<exists>ev \<in> set (events (take (m - i) ls)). tz (fst ev) = None)"
proof (induction ls arbitrary: i st evs)
  case Nil
  then show ?case by simp
next
  case (Cons l ls)
  from Cons.prems have False: "\<not> m \<le> i" by (auto split: if_splits)
  then have m: "m - i = Suc (m - Suc i)" by simp
  show ?case
  proof (cases "parse_log_line l")
    case (Inl e')
    with Cons.prems False show ?thesis by (simp add: loop_body_def m)
  next
    case (Inr r)
    show ?thesis
    proof (cases r)
      case None
      with Inr False Cons.prems have "scan tz m (Suc i) ls st = Inl e"
        by (simp add: loop_body_def)
      from Cons.IH [OF Cons.prems(1) this] show ?thesis
        by (auto simp: m events_Cons Inr None)
    next
      case (Some ev)
      show ?thesis
      proof (cases "record_event tz st ev")
        case (Inl e')
        with Inr Some False Cons.prems(2) have "e' = e" by (simp add: loop_body_def)
        with record_event_Inl [OF Cons.prems(1) Inl] show ?thesis
          by (simp add: m events_Cons Inr Some)
      next
        case r: (Inr st1)
        from record_event_tracks [OF Cons.prems(1) r] have t: "tracks tz (evs @ [ev]) st1" .
        from r Inr Some False Cons.prems have "scan tz m (Suc i) ls st1 = Inl e"
          by (simp add: loop_body_def)
        from Cons.IH [OF t this] show ?thesis
          by (auto simp: m events_Cons Inr Some)
      qed
    qed
  qed
qed

lemma scan_raises:
  "l \<in> set (take (m - i) ls) \<Longrightarrow> parse_log_line l = Inl e \<Longrightarrow> \<exists>e'. scan tz m i ls st = Inl e'"
proof (induction ls arbitrary: i st)
  case Nil
  then show ?case by simp
next
  case (Cons a ls)
  from Cons.prems(1) have False: "\<not> m \<le> i" by (cases "m \<le> i") auto
  then have m: "m - i = Suc (m - Suc i)" by simp
  show ?case
  proof (cases "loop_body tz st a")
    case (Inl e')
    with False show ?thesis by simp
  next
    case (Inr st1)
    with Cons.prems(2) have "a \<noteq> l" by (auto simp: loop_body_def)
    with Cons.prems(1) have "l \<in> set (take (m - Suc i) ls)" by (simp add: m)
    from Cons.IH [OF this Cons.prems(2), of st1] Inr False show ?thesis by simp
  qed
qed

lemma lookup_all_map:
  "(\<And>k. k \<in> set ks \<Longrightarrow> map_of fr k = Some (f k)) \<Longrightarrow> lookup_all fr ks = Inr (map f ks)"
  by (induction ks) simp_all

lemma tracks_lookup_all:
  assumes "tracks tz evs st"
  shows "lookup_all (frequencies st) (error_codes st)
           = Inr (map (count_list (error_codes st)) (error_codes st))"
proof (rule lookup_all_map)
  fix k assume "k \<in> set (error_codes st)"
  with assms show "map_of (frequencies st) k = Some (count_list (error_codes st) k)"
    unfolding tracks_def by simp
qed

lemma count_list_related:
  "list_all2 (\<lambda>x y. (x = c) = (y = k)) xs ys \<Longrightarrow> count_list xs c = count_list ys k"
  by (induction rule: list_all2_induct) auto

lemma tracks_injective:
  assumes t: "tracks tz evs st"
    and a: "map_of (error_map st) c = Some k" and b: "map_of (error_map st) c' = Some k"
  shows "c = c'"
proof -
  from t have "map snd (error_map st) = [1..<Suc (length (error_map st))]"
    unfolding tracks_def by blast
  then have "distinct (map snd (error_map st))" by (metis distinct_upt)
  then have "inj_on snd (set (error_map st))" by (simp add: distinct_map)
  moreover from a b have "(c, k) \<in> set (error_map st)" "(c', k) \<in> set (error_map st)"
    by (auto dest: map_of_SomeD)
  ultimately have "(c, k) = (c', k)" by (intro inj_onD [of snd "set (error_map st)"]) simp_all
  then show ?thesis by simp
qed

lemma tracks_count:
  assumes t: "tracks tz evs st" and i: "i < length evs"
  shows "count_list (error_codes st) (error_codes st ! i) = count_list (map snd evs) (snd (evs ! i))"
proof -
  from t have ids: "list_all2 (\<lambda>ev k. map_of (error_map st) (snd ev) = Some k) evs (error_codes st)"
    unfolding tracks_def by blast
  with i have here: "map_of (error_map st) (snd (evs ! i)) = Some (error_codes st ! i)"
    by (simp add: list_all2_conv_all_nth)
  from ids have "list_all2 (\<lambda>c k. map_of (error_map st) c = Some k) (map snd evs) (error_codes st)"
    by (simp add: list_all2_map1)
  then have "list_all2 (\<lambda>c k. (c = snd (evs ! i)) = (k = error_codes st ! i)) (map snd evs) (error_codes st)"
    by (rule list_all2_mono) (use here tracks_injective [OF t] in auto)
  then show ?thesis by (simp add: count_list_related)
qed

section \<open>The loader's results\<close>

lemma scan_from_empty:
  assumes "scan tz max_lines 0 file empty_state = Inr st"
  shows "tracks tz (events (take max_lines file)) st"
  using scan_tracks [OF tracks_empty assms] by simp

lemma sample_scan:
  "scan utc_timestamp default_max_lines 0 sample_log empty_state = Inr sample_state"
  by (simp add: sample_log_def sample_state_def default_max_lines_def parser_eval loader_eval)

text \<open>
  C8. Once the scan has completed, the counts of the frequency table add up to the number
  of events parsed from the scanned lines, which is also the length of the timestamp
  sequence and of the ID sequence. The table holds every ID once, so the sum over the
  association list is the sum over the dictionary's values.
\<close>

theorem frequency_sum_equals_event_count:
  assumes "scan tz max_lines 0 file empty_state = Inr st"
  shows "sum_list (map snd (frequencies st)) = length (events (take max_lines file)) \<and>
         length (timestamps st) = length (events (take max_lines file)) \<and>
         length (error_codes st) = length (events (take max_lines file)) \<and>
         distinct (map fst (frequencies st))"
proof -
  from scan_from_empty [OF assms] have t: "tracks tz (events (take max_lines file)) st" .
  then have "length (events (take max_lines file)) = length (error_codes st)"
    unfolding tracks_def by (blast dest: list_all2_lengthD)
  moreover from t have "map Some (timestamps st)
      = map (\<lambda>ev. tz (fst ev)) (events (take max_lines file))"
    unfolding tracks_def by blast
  then have "length (timestamps st) = length (events (take max_lines file))"
    by (metis length_map)
  ultimately show ?thesis using t unfolding tracks_def by simp
qed

theorem frequency_sum_equals_event_count_witness:
  "scan utc_timestamp default_max_lines 0 sample_log empty_state = Inr sample_state \<and>
   sum_list (map snd (frequencies sample_state))
     = length (events (take default_max_lines sample_log)) \<and>
   length (timestamps sample_state) = length (events (take default_max_lines sample_log)) \<and>
   length (error_codes sample_state) = length (events (take default_max_lines sample_log)) \<and>
   distinct (map fst (frequencies sample_state)) \<and>
   sum_list (map snd (frequencies sample_state)) = 3"
  using frequency_sum_equals_event_count [OF sample_scan] sample_scan
  by (simp add: sample_state_def)

lemma scan_prefix:
  "scan tz m i ls st = Inr st' \<Longrightarrow>
     \<exists>st_k. scan tz m i (take k ls) st = Inr st_k \<and> scan tz m (i + min k (length ls)) (drop k ls) st_k = Inr st'"
proof (induction ls arbitrary: i st k)
  case Nil
  then show ?case by simp
next
  case (Cons l ls)
  show ?case
  proof (cases k)
    case 0
    with Cons.prems show ?thesis by simp
  next
    case (Suc k')
    show ?thesis
    proof (cases "m \<le> i")
      case True
      with Cons.prems have "st' = st" by simp
      with True Suc show ?thesis by (cases "drop k' ls") simp_all
    next
      case False
      with Cons.prems obtain st1 where b: "loop_body tz st l = Inr st1"
        and r: "scan tz m (Suc i) ls st1 = Inr st'"
        by (auto split: sum.splits)
      from Cons.IH [OF r, of k'] b False Suc show ?thesis by simp
    qed
  qed
qed

lemma tracks_registry:
  assumes t: "tracks tz evs st"
  shows "error_map st = zip (first_seen (map snd evs)) [1..<Suc (card (set (map snd evs)))]"
proof -
  from t have k: "map fst (error_map st) = first_seen (map snd evs)"
    and v: "map snd (error_map st) = [1..<Suc (length (error_map st))]"
    unfolding tracks_def by blast+
  from k have "length (error_map st) = length (first_seen (map snd evs))"
    by (metis length_map)
  also have "\<dots> = card (set (map snd evs))"
    by (metis distinct_card distinct_first_seen set_first_seen)
  finally have n: "length (error_map st) = card (set (map snd evs))" .
  have "error_map st = zip (map fst (error_map st)) (map snd (error_map st))"
    by (simp add: zip_map_fst_snd)
  with k v n show ?thesis by simp
qed

text \<open>
  C6. The state after the first \<open>k\<close> lines of the file is the result of the loop on
  \<open>take k file\<close> (\<open>scan_prefix\<close>: the scan of the whole file passes through it), for the
  whole file with \<open>k\<close> its length. In every such state the registry pairs the distinct
  codes seen so far, in the order of their first occurrence, with 1, 2, ..., \<open>n\<close>; the IDs
  in the registry and the IDs handed out are exactly 1 to \<open>n\<close>, \<open>n\<close> the number of distinct
  codes; every event carries the ID the registry holds for its code, so two events have
  the same ID exactly when they have the same code.
\<close>

theorem registry_first_occurrence_dense:
  assumes "scan tz max_lines 0 (take k file) empty_state = Inr st"
  shows "let codes = map snd (events (take max_lines (take k file))); n = card (set codes) in
           error_map st = zip (first_seen codes) [1..<Suc n] \<and>
           length (first_seen codes) = n \<and>
           snd ` set (error_map st) = {1..n} \<and>
           set (error_codes st) = {1..n} \<and>
           length (error_codes st) = length codes \<and>
           (\<forall>i<length codes. map_of (error_map st) (codes ! i) = Some (error_codes st ! i)) \<and>
           (\<forall>i<length codes. \<forall>j<length codes.
               (codes ! i = codes ! j) = (error_codes st ! i = error_codes st ! j))"
proof -
  define evs where "evs = events (take max_lines (take k file))"
  define codes where "codes = map snd evs"
  define n where "n = card (set codes)"
  let ?em = "error_map st" and ?ids = "error_codes st"
  from scan_from_empty [OF assms] have t: "tracks tz evs st" by (simp add: evs_def)
  have em: "?em = zip (first_seen codes) [1..<Suc n]"
    using tracks_registry [OF t] by (simp add: codes_def n_def)
  have len: "length (first_seen codes) = n"
    by (metis distinct_card distinct_first_seen set_first_seen n_def)
  from t have v: "map snd ?em = [1..<Suc (length ?em)]"
    and ids: "list_all2 (\<lambda>ev k. map_of ?em (snd ev) = Some k) evs ?ids"
    and keys: "map fst ?em = first_seen codes"
    unfolding tracks_def codes_def by blast+
  from em len have lem: "length ?em = n" by simp
  have vals: "snd ` set ?em = {1..n}"
  proof -
    have "snd ` set ?em = set (map snd ?em)" by simp
    also have "\<dots> = {1..n}" unfolding v lem by auto
    finally show ?thesis .
  qed
  from ids have l: "length ?ids = length codes"
    by (simp add: codes_def list_all2_lengthD)
  have look: "map_of ?em (codes ! i) = Some (?ids ! i)" if "i < length codes" for i
    using ids that by (simp add: list_all2_conv_all_nth codes_def)
  have same: "(codes ! i = codes ! j) = (?ids ! i = ?ids ! j)"
    if "i < length codes" "j < length codes" for i j
  proof
    assume "codes ! i = codes ! j"
    with look [OF that(1)] look [OF that(2)] show "?ids ! i = ?ids ! j" by simp
  next
    assume "?ids ! i = ?ids ! j"
    with look [OF that(1)] look [OF that(2)] tracks_injective [OF t]
    show "codes ! i = codes ! j" by metis
  qed
  have idset: "set ?ids = {1..n}"
  proof
    show "set ?ids \<subseteq> {1..n}"
      using tracks_ids_range [OF t] lem by auto
  next
    show "{1..n} \<subseteq> set ?ids"
    proof
      fix x assume "x \<in> {1..n}"
      with vals obtain c where cx: "(c, x) \<in> set ?em" by force
      then have "c \<in> set (map fst ?em)" by force
      with keys have "c \<in> set codes" by simp
      then obtain i where i: "i < length codes" "codes ! i = c"
        by (auto simp: in_set_conv_nth)
      from cx have "map_of ?em c = Some x"
        using keys by (metis distinct_first_seen map_of_is_SomeI)
      with look [OF i(1)] i(2) have "?ids ! i = x" by simp
      with i(1) l show "x \<in> set ?ids" by (metis nth_mem)
    qed
  qed
  from em len vals idset l look same show ?thesis
    unfolding Let_def codes_def [symmetric] evs_def [symmetric] n_def [symmetric]
    by blast
qed

lemma sample_codes:
  "map snd (events (take default_max_lines (take 4 sample_log)))
     = [''Error'', ''HRESULT = 0x80070002'', ''Error'']"
  by (simp add: sample_log_def default_max_lines_def events_Cons parser_eval)

theorem registry_first_occurrence_dense_witness:
  "scan utc_timestamp default_max_lines 0 (take 4 sample_log) empty_state = Inr sample_state \<and>
   error_map sample_state = zip [''Error'', ''HRESULT = 0x80070002''] [1..<Suc 2] \<and>
   snd ` set (error_map sample_state) = {1..2} \<and>
   set (error_codes sample_state) = {1..2} \<and>
   error_codes sample_state = [1, 2, 1]"
proof -
  have h: "scan utc_timestamp default_max_lines 0 (take 4 sample_log) empty_state = Inr sample_state"
    using sample_scan by (simp add: sample_log_def)
  have c: "card (set [''Error'', ''HRESULT = 0x80070002'', ''Error'']) = 2"
    by (simp add: card_insert_if)
  have f: "first_seen [''Error'', ''HRESULT = 0x80070002'', ''Error'']
             = [''Error'', ''HRESULT = 0x80070002'']"
    by (simp add: first_seen_def)
  note r = registry_first_occurrence_dense [OF h, unfolded Let_def sample_codes c f]
  from r have "error_map sample_state = zip [''Error'', ''HRESULT = 0x80070002''] [1..<Suc 2]"
    and "snd ` set (error_map sample_state) = {1..2}"
    and "set (error_codes sample_state) = {1..2}"
    by blast+
  with h show ?thesis by (simp add: sample_state_def)
qed

lemma parse_error_is_ValueError: "parse_log_line l = Inl e \<Longrightarrow> e = ValueError"
  by (auto simp: parse_log_line_def strptime_def Let_def split: option.splits sum.splits if_splits)

lemma load_cbs_log_Inr:
  assumes "load_cbs_log tz file max_lines = Inr (ts, ids, fs)"
  shows "\<exists>st. scan tz max_lines 0 file empty_state = Inr st \<and> ts = timestamps st \<and>
           ids = error_codes st \<and> fs = map (count_list ids) ids"
proof -
  from assms obtain st where s: "scan tz max_lines 0 file empty_state = Inr st"
    by (auto simp: load_cbs_log_def split: sum.splits)
  from tracks_lookup_all [OF scan_from_empty [OF s]] assms s
  show ?thesis by (auto simp: load_cbs_log_def)
qed

lemma load_cbs_log_Inl:
  assumes "load_cbs_log tz file max_lines = Inl e"
  shows "e = ValueError \<and>
         ((\<exists>l \<in> set (take max_lines file). parse_log_line l = Inl ValueError) \<or>
          (\<exists>ev \<in> set (events (take max_lines file)). tz (fst ev) = None))"
proof (cases "scan tz max_lines 0 file empty_state")
  case (Inl e')
  with assms have "e' = e" by (simp add: load_cbs_log_def)
  with scan_error [OF tracks_empty Inl] parse_error_is_ValueError show ?thesis by fastforce
next
  case (Inr st)
  from tracks_lookup_all [OF scan_from_empty [OF Inr]] Inr assms show ?thesis
    by (simp add: load_cbs_log_def)
qed

lemma load_cbs_log_returns:
  assumes "\<forall>l \<in> set (take max_lines file). parse_log_line l \<noteq> Inl ValueError"
    and "\<forall>ev \<in> set (events (take max_lines file)). tz (fst ev) \<noteq> None"
  shows "\<exists>ts ids fs. load_cbs_log tz file max_lines = Inr (ts, ids, fs)"
proof (cases "load_cbs_log tz file max_lines")
  case (Inl e)
  from load_cbs_log_Inl [OF Inl] assms show ?thesis by blast
next
  case (Inr out)
  then show ?thesis by (cases out) auto
qed

text \<open>
  C7. The loader returns whenever no scanned line raises, in the parser or in the
  conversion of its timestamp. What it returns has one entry per event parsed from the
  scanned lines, in line order: the timestamps are the conversions of the parsed
  timestamps; the frequency of row \<open>i\<close> is the number of times the ID of row \<open>i\<close> occurs in
  the whole ID sequence, which is the number of events of the whole scan that carry the
  code of row \<open>i\<close>; and row \<open>i\<close> of the stacked matrix is (timestamp, ID, frequency) of
  event \<open>i\<close>. In the sample the first row holds 2, the count over the whole log, where the
  count up to that row is 1.
\<close>

theorem frequency_column_is_final_count:
  "((\<forall>l \<in> set (take max_lines file). parse_log_line l \<noteq> Inl ValueError) \<and>
    (\<forall>ev \<in> set (events (take max_lines file)). tz (fst ev) \<noteq> None)
    \<longrightarrow> (\<exists>ts ids fs. load_cbs_log tz file max_lines = Inr (ts, ids, fs))) \<and>
   (\<forall>ts ids fs. load_cbs_log tz file max_lines = Inr (ts, ids, fs) \<longrightarrow>
      (let evs = events (take max_lines file) in
         map Some ts = map (\<lambda>ev. tz (fst ev)) evs \<and>
         length ts = length evs \<and> length ids = length evs \<and> length fs = length evs \<and>
         (\<forall>i<length evs. fs ! i = count_list ids (ids ! i) \<and>
                          fs ! i = count_list (map snd evs) (snd (evs ! i))) \<and>
         length (column_stack (ts, ids, fs)) = length evs \<and>
         (\<forall>i<length evs. tz (fst (evs ! i)) = Some (ts ! i) \<and>
            column_stack (ts, ids, fs) ! i = [ts ! i, real (ids ! i), real (fs ! i)])))"
proof (intro conjI allI impI)
  assume "(\<forall>l \<in> set (take max_lines file). parse_log_line l \<noteq> Inl ValueError) \<and>
    (\<forall>ev \<in> set (events (take max_lines file)). tz (fst ev) \<noteq> None)"
  then show "\<exists>ts ids fs. load_cbs_log tz file max_lines = Inr (ts, ids, fs)"
    using load_cbs_log_returns by blast
next
  fix ts ids fs
  assume l: "load_cbs_log tz file max_lines = Inr (ts, ids, fs)"
  define evs where "evs = events (take max_lines file)"
  from load_cbs_log_Inr [OF l] obtain st
    where s: "scan tz max_lines 0 file empty_state = Inr st"
      and ts: "ts = timestamps st" and ids: "ids = error_codes st"
      and fs: "fs = map (count_list ids) ids"
    by blast
  from scan_from_empty [OF s] have t: "tracks tz evs st" by (simp add: evs_def)
  from t have tsv: "map Some ts = map (\<lambda>ev. tz (fst ev)) evs"
    unfolding tracks_def ts by blast
  then have lt: "length ts = length evs" by (metis length_map)
  from t have li: "length ids = length evs"
    unfolding tracks_def ids by (metis list_all2_lengthD)
  from fs li have lf: "length fs = length evs" by simp
  have cnt: "fs ! i = count_list ids (ids ! i) \<and> fs ! i = count_list (map snd evs) (snd (evs ! i))"
    if "i < length evs" for i
    using tracks_count [OF t that] that li by (simp add: fs ids)
  have lc: "length (column_stack (ts, ids, fs)) = length evs"
    by (simp add: column_stack_def lt)
  have row: "tz (fst (evs ! i)) = Some (ts ! i) \<and>
      column_stack (ts, ids, fs) ! i = [ts ! i, real (ids ! i), real (fs ! i)]"
    if "i < length evs" for i
  proof -
    from that lt have "map Some ts ! i = Some (ts ! i)" by simp
    moreover from that have "map (\<lambda>ev. tz (fst ev)) evs ! i = tz (fst (evs ! i))" by simp
    ultimately have "tz (fst (evs ! i)) = Some (ts ! i)" using tsv by simp
    with that lt show ?thesis by (simp add: column_stack_def)
  qed
  from tsv lt li lf cnt lc row
  show "let evs = events (take max_lines file) in
         map Some ts = map (\<lambda>ev. tz (fst ev)) evs \<and>
         length ts = length evs \<and> length ids = length evs \<and> length fs = length evs \<and>
         (\<forall>i<length evs. fs ! i = count_list ids (ids ! i) \<and>
                          fs ! i = count_list (map snd evs) (snd (evs ! i))) \<and>
         length (column_stack (ts, ids, fs)) = length evs \<and>
         (\<forall>i<length evs. tz (fst (evs ! i)) = Some (ts ! i) \<and>
            column_stack (ts, ids, fs) ! i = [ts ! i, real (ids ! i), real (fs ! i)])"
    unfolding Let_def evs_def [symmetric] by blast
qed

lemma sample_load:
  "load_cbs_log utc_timestamp sample_log default_max_lines
     = Inr ([1705314600, 1705314602, 1705314604], [1, 2, 1], [2, 1, 2])"
  using sample_scan by (simp add: load_cbs_log_def sample_state_def)

lemma sample_events:
  "events (take default_max_lines sample_log)
     = [(\<lparr>year = 2024, month = 1, day = 15, hour = 10, minute = 30, second = 0\<rparr>, ''Error''),
        (\<lparr>year = 2024, month = 1, day = 15, hour = 10, minute = 30, second = 2\<rparr>,
         ''HRESULT = 0x80070002''),
        (\<lparr>year = 2024, month = 1, day = 15, hour = 10, minute = 30, second = 4\<rparr>, ''Error'')]"
  by (simp add: sample_log_def default_max_lines_def events_Cons parser_eval)

theorem frequency_column_is_final_count_witness:
  "parse_log_line (sample_log ! 0) \<noteq> Inl ValueError \<and>
   parse_log_line (sample_log ! 1) \<noteq> Inl ValueError \<and>
   parse_log_line (sample_log ! 2) \<noteq> Inl ValueError \<and>
   parse_log_line (sample_log ! 3) \<noteq> Inl ValueError \<and>
   utc_timestamp \<lparr>year = 2024, month = 1, day = 15, hour = 10, minute = 30, second = 0\<rparr>
     = Some 1705314600 \<and>
   utc_timestamp \<lparr>year = 2024, month = 1, day = 15, hour = 10, minute = 30, second = 2\<rparr>
     = Some 1705314602 \<and>
   utc_timestamp \<lparr>year = 2024, month = 1, day = 15, hour = 10, minute = 30, second = 4\<rparr>
     = Some 1705314604 \<and>
   load_cbs_log utc_timestamp sample_log default_max_lines
     = Inr ([1705314600, 1705314602, 1705314604], [1, 2, 1], [2, 1, 2]) \<and>
   length (events (take default_max_lines sample_log)) = 3 \<and>
   [2, 1, 2 :: nat] ! 0 = count_list [1, 2, 1 :: nat] ([1, 2, 1 :: nat] ! 0) \<and>
   [2, 1, 2 :: nat] ! 0 \<noteq> count_list (take 1 [1, 2, 1 :: nat]) ([1, 2, 1 :: nat] ! 0) \<and>
   column_stack ([1705314600, 1705314602, 1705314604], [1, 2, 1], [2, 1, 2]) ! 0
     = [1705314600, 1, 2]"
proof -
  have p: "parse_log_line (sample_log ! 0) \<noteq> Inl ValueError"
    "parse_log_line (sample_log ! 1) \<noteq> Inl ValueError"
    "parse_log_line (sample_log ! 2) \<noteq> Inl ValueError"
    "parse_log_line (sample_log ! 3) \<noteq> Inl ValueError"
    by (simp_all add: sample_log_def parser_eval)
  have z: "utc_timestamp \<lparr>year = 2024, month = 1, day = 15, hour = 10, minute = 30, second = 0\<rparr>
     = Some 1705314600"
    "utc_timestamp \<lparr>year = 2024, month = 1, day = 15, hour = 10, minute = 30, second = 2\<rparr>
     = Some 1705314602"
    "utc_timestamp \<lparr>year = 2024, month = 1, day = 15, hour = 10, minute = 30, second = 4\<rparr>
     = Some 1705314604"
    by (simp_all add: loader_eval days_in_month_def is_leap_def)
  have h1: "\<forall>l \<in> set (take default_max_lines sample_log). parse_log_line l \<noteq> Inl ValueError"
    using p by (simp add: sample_log_def default_max_lines_def)
  have h2: "\<forall>ev \<in> set (events (take default_max_lines sample_log)). utc_timestamp (fst ev) \<noteq> None"
    unfolding sample_events using z by simp
  note r = frequency_column_is_final_count [of default_max_lines sample_log utc_timestamp]
  from r h1 h2 obtain ts ids fs
    where l: "load_cbs_log utc_timestamp sample_log default_max_lines = Inr (ts, ids, fs)"
    by blast
  with sample_load have e: "ts = [1705314600, 1705314602, 1705314604]" "ids = [1, 2, 1]"
    "fs = [2, 1, 2]" by simp_all
  from r l have q: "length ts = length (events (take default_max_lines sample_log))"
    "\<forall>i<length (events (take default_max_lines sample_log)).
        fs ! i = count_list ids (ids ! i)"
    "\<forall>i<length (events (take default_max_lines sample_log)).
        column_stack (ts, ids, fs) ! i = [ts ! i, real (ids ! i), real (fs ! i)]"
    unfolding Let_def by blast+
  from q(1) have n: "length (events (take default_max_lines sample_log)) = 3" by (simp add: e)
  with q(2,3) have "fs ! 0 = count_list ids (ids ! 0)"
    "column_stack (ts, ids, fs) ! 0 = [ts ! 0, real (ids ! 0), real (fs ! 0)]"
    by simp_all
  then have "[2, 1, 2 :: nat] ! 0 = count_list [1, 2, 1 :: nat] ([1, 2, 1 :: nat] ! 0)"
    "column_stack ([1705314600, 1705314602, 1705314604], [1, 2, 1], [2, 1, 2]) ! 0
     = [1705314600, 1, 2]"
    unfolding e by simp_all
  moreover have "[2, 1, 2 :: nat] ! 0 \<noteq> count_list (take 1 [1, 2, 1 :: nat]) ([1, 2, 1 :: nat] ! 0)"
    by simp
  ultimately show ?thesis using p z sample_load n by blast
qed

section \<open>The words of the specification and the parser\<close>














section \<open>The parser's results\<close>





text \<open>
  C4. A line that the event pattern matches and whose group 1 fails \<open>strptime\<close> makes
  \<open>parse_log_line\<close> raise; the loader does not catch it, so \<open>load_cbs_log\<close> raises
  \<open>ValueError\<close> for every file that has such a line among the scanned ones. The line is
  never skipped. The witness is a line with month 13.
\<close>

theorem malformed_timestamp_raises:
  assumes "search line = Some (g1, g2)" and "strptime g1 = Inl e"
  shows "parse_log_line line = Inl e \<and>
         (\<forall>tz file max_lines. line \<in> set (take max_lines file) \<longrightarrow>
            load_cbs_log tz file max_lines = Inl ValueError)"
proof -
  from assms have p: "parse_log_line line = Inl e" by (simp add: parse_log_line_def)
  have "load_cbs_log tz ls n = Inl ValueError"
    if "line \<in> set (take n ls)" for tz ls n
  proof -
    from that have "line \<in> set (take (n - 0) ls)" by simp
    from scan_raises [OF this p] obtain e' where "scan tz n 0 ls empty_state = Inl e'"
      by blast
    then have l: "load_cbs_log tz ls n = Inl e'" by (simp add: load_cbs_log_def)
    from load_cbs_log_Inl [OF this] parse_error_is_ValueError have "e' = ValueError" by blast
    with l show ?thesis by simp
  qed
  with p show ?thesis by blast
qed

lemma month13_search:
  "search ''2024-13-01 10:30:00, Error CBS'' = Some (''2024-13-01 10:30:00'', ''Error'')"
  by (simp add: parser_eval)

lemma month13_strptime: "strptime ''2024-13-01 10:30:00'' = Inl ValueError"
  by (simp add: parser_eval)

theorem malformed_timestamp_raises_witness:
  "search ''2024-13-01 10:30:00, Error CBS'' = Some (''2024-13-01 10:30:00'', ''Error'') \<and>
   strptime ''2024-13-01 10:30:00'' = Inl ValueError \<and>
   parse_log_line ''2024-13-01 10:30:00, Error CBS'' = Inl ValueError \<and>
   ''2024-13-01 10:30:00, Error CBS''
      \<in> set (take default_max_lines (sample_log @ [''2024-13-01 10:30:00, Error CBS''])) \<and>
   load_cbs_log utc_timestamp (sample_log @ [''2024-13-01 10:30:00, Error CBS'']) default_max_lines
     = Inl ValueError"
proof -
  note r = malformed_timestamp_raises [OF month13_search month13_strptime]
  have m: "''2024-13-01 10:30:00, Error CBS''
      \<in> set (take default_max_lines (sample_log @ [''2024-13-01 10:30:00, Error CBS'']))"
    by (simp add: sample_log_def default_max_lines_def)
  from r m have "load_cbs_log utc_timestamp (sample_log @ [''2024-13-01 10:30:00, Error CBS''])
      default_max_lines = Inl ValueError" by blast
  with r m month13_search month13_strptime show ?thesis by blast
qed







lemma scan_no_events:
  "\<forall>l \<in> set (take (m - i) ls). parse_log_line l = Inr None \<Longrightarrow> scan tz m i ls st = Inr st"
proof (induction ls arbitrary: i)
  case Nil
  then show ?case by simp
next
  case (Cons l ls)
  show ?case
  proof (cases "m \<le> i")
    case True
    then show ?thesis by simp
  next
    case False
    then have m: "m - i = Suc (m - Suc i)" by simp
    with Cons.prems have "parse_log_line l = Inr None"
      and "\<forall>l \<in> set (take (m - Suc i) ls). parse_log_line l = Inr None" by simp_all
    with Cons.IH [of "Suc i"] False show ?thesis by (simp add: loop_body_def)
  qed
qed

text \<open>
  C1, as the code has it. When no scanned line holds an event, \<open>load_cbs_log\<close> returns
  three empty sequences and raises nothing; the script makes no check of its own, so the
  matrix without rows is handed to \<open>fit_transform\<close>, and the first failure of the run is the
  \<open>ValueError\<close> of the library's input validation inside the standardization call.
\<close>

theorem zero_events_reach_standardization:
  assumes "\<forall>l \<in> set (take max_lines file). parse_log_line l = Inr None"
  shows "load_cbs_log tz file max_lines = Inr ([], [], []) \<and>
         column_stack ([], [], []) = [] \<and>
         fit_transform (column_stack ([], [], [])) = Inl ValueError"
proof -
  from assms have "scan tz max_lines 0 file empty_state = Inr empty_state"
    by (intro scan_no_events) simp
  then have "load_cbs_log tz file max_lines = Inr ([], [], [])"
    by (simp add: load_cbs_log_def empty_state_def)
  then show ?thesis by (simp add: column_stack_def fit_transform_def)
qed

text \<open>
  The claim as stated fails: on a log of two lines without an event the loader returns
  normally, and the error arises in the standardization call.
\<close>

theorem zero_events_counterexample:
  "load_cbs_log utc_timestamp [''no event here'', ''2024-01-15 10:30:00, Info only'']
     default_max_lines = Inr ([], [], []) \<and>
   fit_transform (column_stack ([], [], [])) = Inl ValueError"
  by (simp add: default_max_lines_def parser_eval loader_eval column_stack_def fit_transform_def)

theorem zero_events_reach_standardization_witness:
  "parse_log_line ''no event here'' = Inr None \<and>
   parse_log_line ''2024-01-15 10:30:00, Info only'' = Inr None \<and>
   load_cbs_log (fixed_offset_timestamp 19800)
     [''no event here'', ''2024-01-15 10:30:00, Info only''] default_max_lines = Inr ([], [], []) \<and>
   column_stack ([], [], []) = [] \<and>
   fit_transform (column_stack ([], [], [])) = Inl ValueError"
proof -
  have p: "parse_log_line ''no event here'' = Inr None"
    "parse_log_line ''2024-01-15 10:30:00, Info only'' = Inr None"
    by (simp_all add: parser_eval)
  then have h: "\<forall>l \<in> set (take default_max_lines
      [''no event here'', ''2024-01-15 10:30:00, Info only'']). parse_log_line l = Inr None"
    by (simp add: default_max_lines_def)
  from zero_events_reach_standardization [OF h, of "fixed_offset_timestamp 19800"] p
  show ?thesis by blast
qed

lemma record_event_cong:
  "tz (fst ev) = tz' (fst ev) \<Longrightarrow> record_event tz st ev = record_event tz' st ev"
  by (simp add: record_event_def)

lemma scan_cong:
  "\<forall>ev \<in> set (events (take (m - i) ls)). tz (fst ev) = tz' (fst ev) \<Longrightarrow>
     scan tz m i ls st = scan tz' m i ls st"
proof (induction ls arbitrary: i st)
  case Nil
  then show ?case by simp
next
  case (Cons l ls)
  show ?case
  proof (cases "m \<le> i")
    case True
    then show ?thesis by simp
  next
    case False
    then have m: "m - i = Suc (m - Suc i)" by simp
    show ?thesis
    proof (cases "parse_log_line l")
      case (Inl e)
      with False show ?thesis by (simp add: loop_body_def)
    next
      case (Inr r)
      show ?thesis
      proof (cases r)
        case None
        with Inr Cons.prems have "\<forall>ev \<in> set (events (take (m - Suc i) ls)). tz (fst ev) = tz' (fst ev)"
          by (simp add: m events_Cons)
        from Cons.IH [OF this] Inr None False show ?thesis by (simp add: loop_body_def)
      next
        case (Some ev)
        with Inr Cons.prems have e: "tz (fst ev) = tz' (fst ev)"
          and r: "\<forall>ev \<in> set (events (take (m - Suc i) ls)). tz (fst ev) = tz' (fst ev)"
          by (simp_all add: m events_Cons)
        from e have "record_event tz st ev = record_event tz' st ev"
          by (rule record_event_cong)
        with Cons.IH [OF r] Inr Some False show ?thesis
          by (simp add: loop_body_def split: sum.splits)
      qed
    qed
  qed
qed

lemma tracks_same_ids:
  assumes "tracks tz evs st" and "tracks tz' evs st'"
  shows "error_codes st = error_codes st'"
proof -
  from tracks_registry [OF assms(1)] tracks_registry [OF assms(2)]
  have em: "error_map st = error_map st'" by simp
  from assms have a: "list_all2 (\<lambda>ev k. map_of (error_map st) (snd ev) = Some k) evs (error_codes st)"
    and b: "list_all2 (\<lambda>ev k. map_of (error_map st) (snd ev) = Some k) evs (error_codes st')"
    unfolding tracks_def em by blast+
  show ?thesis
  proof (rule nth_equalityI)
    from a b show "length (error_codes st) = length (error_codes st')"
      by (metis list_all2_lengthD)
  next
    fix i assume i: "i < length (error_codes st)"
    with a have "map_of (error_map st) (snd (evs ! i)) = Some (error_codes st ! i)"
      by (simp add: list_all2_conv_all_nth)
    moreover from i a b have "map_of (error_map st) (snd (evs ! i)) = Some (error_codes st' ! i)"
      by (simp add: list_all2_conv_all_nth)
    ultimately show "error_codes st ! i = error_codes st' ! i" by simp
  qed
qed

text \<open>
  C9, as the code has it. Two runs on the same lines with the same cap have the same
  outcome, three sequences, stacked and scaled matrix or exception, when the time zones of
  their hosts convert the timestamps parsed from the scanned lines alike, as on one host
  with one setting. Two runs that both return have the same error-code IDs and the same
  frequencies whatever the two zones are. A run returns when no scanned line raises in
  the parser or in the conversion.
\<close>

theorem loader_deterministic_up_to_time_zone:
  "((\<forall>ev \<in> set (events (take max_lines file)). tz (fst ev) = tz' (fst ev)) \<longrightarrow>
      load_cbs_log tz file max_lines = load_cbs_log tz' file max_lines \<and>
      map_sum id column_stack (load_cbs_log tz file max_lines)
        = map_sum id column_stack (load_cbs_log tz' file max_lines) \<and>
      feature_matrix tz file max_lines = feature_matrix tz' file max_lines) \<and>
   (\<forall>ts ids fs ts' ids' fs'.
      load_cbs_log tz file max_lines = Inr (ts, ids, fs) \<and>
      load_cbs_log tz' file max_lines = Inr (ts', ids', fs') \<longrightarrow>
      ids = ids' \<and> fs = fs' \<and> length ts = length ts') \<and>
   ((\<forall>l \<in> set (take max_lines file). parse_log_line l \<noteq> Inl ValueError) \<and>
    (\<forall>ev \<in> set (events (take max_lines file)). tz (fst ev) \<noteq> None) \<longrightarrow>
      (\<exists>ts ids fs. load_cbs_log tz file max_lines = Inr (ts, ids, fs)))"
proof -
  have same: "(\<forall>ev \<in> set (events (take max_lines file)). tz (fst ev) = tz' (fst ev)) \<longrightarrow>
      load_cbs_log tz file max_lines = load_cbs_log tz' file max_lines \<and>
      map_sum id column_stack (load_cbs_log tz file max_lines)
        = map_sum id column_stack (load_cbs_log tz' file max_lines) \<and>
      feature_matrix tz file max_lines = feature_matrix tz' file max_lines"
  proof
    assume "\<forall>ev \<in> set (events (take max_lines file)). tz (fst ev) = tz' (fst ev)"
    then have "scan tz max_lines 0 file empty_state = scan tz' max_lines 0 file empty_state"
      by (intro scan_cong) simp
    then have "load_cbs_log tz file max_lines = load_cbs_log tz' file max_lines"
      by (simp add: load_cbs_log_def)
    then show "load_cbs_log tz file max_lines = load_cbs_log tz' file max_lines \<and>
      map_sum id column_stack (load_cbs_log tz file max_lines)
        = map_sum id column_stack (load_cbs_log tz' file max_lines) \<and>
      feature_matrix tz file max_lines = feature_matrix tz' file max_lines"
      by (simp add: feature_matrix_def)
  qed
  have ids: "\<forall>ts ids fs ts' ids' fs'.
      load_cbs_log tz file max_lines = Inr (ts, ids, fs) \<and>
      load_cbs_log tz' file max_lines = Inr (ts', ids', fs') \<longrightarrow>
      ids = ids' \<and> fs = fs' \<and> length ts = length ts'"
  proof (intro allI impI)
    fix ts ids fs ts' ids' fs'
    assume both: "load_cbs_log tz file max_lines = Inr (ts, ids, fs) \<and>
      load_cbs_log tz' file max_lines = Inr (ts', ids', fs')"
    from both load_cbs_log_Inr obtain st where s: "scan tz max_lines 0 file empty_state = Inr st"
      "ts = timestamps st" "ids = error_codes st" "fs = map (count_list ids) ids" by blast
    from both load_cbs_log_Inr obtain st' where s': "scan tz' max_lines 0 file empty_state = Inr st'"
      "ts' = timestamps st'" "ids' = error_codes st'" "fs' = map (count_list ids') ids'" by blast
    note t = scan_from_empty [OF s(1)] and t' = scan_from_empty [OF s'(1)]
    from tracks_same_ids [OF t t'] s(3) s'(3) have i: "ids = ids'" by simp
    with s(4) s'(4) have f: "fs = fs'" by simp
    from t have "map Some ts = map (\<lambda>ev. tz (fst ev)) (events (take max_lines file))"
      unfolding tracks_def s(2) by blast
    then have "length ts = length (events (take max_lines file))" by (metis length_map)
    moreover from t' have "map Some ts' = map (\<lambda>ev. tz' (fst ev)) (events (take max_lines file))"
      unfolding tracks_def s'(2) by blast
    then have "length ts' = length (events (take max_lines file))" by (metis length_map)
    ultimately show "ids = ids' \<and> fs = fs' \<and> length ts = length ts'" using i f by simp
  qed
  have returns: "(\<forall>l \<in> set (take max_lines file). parse_log_line l \<noteq> Inl ValueError) \<and>
    (\<forall>ev \<in> set (events (take max_lines file)). tz (fst ev) \<noteq> None) \<longrightarrow>
      (\<exists>ts ids fs. load_cbs_log tz file max_lines = Inr (ts, ids, fs))"
    using load_cbs_log_returns by blast
  show ?thesis by (intro conjI same ids returns)
qed

text \<open>
  The claim as stated fixes the file and the cap only. The same one-line file, read on
  a host in UTC and on a host five and a half hours ahead of UTC, gives two different
  timestamp sequences.
\<close>

theorem loader_time_zone_counterexample:
  "load_cbs_log utc_timestamp [''2024-01-15 10:30:00, Error CBS''] 10
     = Inr ([1705314600], [1], [1]) \<and>
   load_cbs_log (fixed_offset_timestamp 19800) [''2024-01-15 10:30:00, Error CBS''] 10
     = Inr ([1705294800], [1], [1])"
  by (simp add: parser_eval loader_eval)

lemma sample_load_east:
  "load_cbs_log (fixed_offset_timestamp 19800) sample_log default_max_lines
     = Inr ([1705294800, 1705294802, 1705294804], [1, 2, 1], [2, 1, 2])"
  by (simp add: sample_log_def default_max_lines_def parser_eval loader_eval)

theorem loader_deterministic_up_to_time_zone_witness:
  "parse_log_line (sample_log ! 0) \<noteq> Inl ValueError \<and>
   parse_log_line (sample_log ! 1) \<noteq> Inl ValueError \<and>
   parse_log_line (sample_log ! 2) \<noteq> Inl ValueError \<and>
   parse_log_line (sample_log ! 3) \<noteq> Inl ValueError \<and>
   fixed_offset_timestamp 19800
       \<lparr>year = 2024, month = 1, day = 15, hour = 10, minute = 30, second = 0\<rparr>
     = Some 1705294800 \<and>
   fixed_offset_timestamp 19800
       \<lparr>year = 2024, month = 1, day = 15, hour = 10, minute = 30, second = 2\<rparr>
     = Some 1705294802 \<and>
   fixed_offset_timestamp 19800
       \<lparr>year = 2024, month = 1, day = 15, hour = 10, minute = 30, second = 4\<rparr>
     = Some 1705294804 \<and>
   (\<forall>t. utc_timestamp t = fixed_offset_timestamp 0 t) \<and>
   load_cbs_log utc_timestamp sample_log default_max_lines
     = Inr ([1705314600, 1705314602, 1705314604], [1, 2, 1], [2, 1, 2]) \<and>
   load_cbs_log (fixed_offset_timestamp 0) sample_log default_max_lines
     = Inr ([1705314600, 1705314602, 1705314604], [1, 2, 1], [2, 1, 2]) \<and>
   load_cbs_log (fixed_offset_timestamp 19800) sample_log default_max_lines
     = Inr ([1705294800, 1705294802, 1705294804], [1, 2, 1], [2, 1, 2])"
proof -
  have p: "parse_log_line (sample_log ! 0) \<noteq> Inl ValueError"
    "parse_log_line (sample_log ! 1) \<noteq> Inl ValueError"
    "parse_log_line (sample_log ! 2) \<noteq> Inl ValueError"
    "parse_log_line (sample_log ! 3) \<noteq> Inl ValueError"
    by (simp_all add: sample_log_def parser_eval)
  have k: "fixed_offset_timestamp 19800
       \<lparr>year = 2024, month = 1, day = 15, hour = 10, minute = 30, second = 0\<rparr>
     = Some 1705294800"
    "fixed_offset_timestamp 19800
       \<lparr>year = 2024, month = 1, day = 15, hour = 10, minute = 30, second = 2\<rparr>
     = Some 1705294802"
    "fixed_offset_timestamp 19800
       \<lparr>year = 2024, month = 1, day = 15, hour = 10, minute = 30, second = 4\<rparr>
     = Some 1705294804"
    by (simp_all add: loader_eval days_in_month_def is_leap_def)
  have h1: "\<forall>l \<in> set (take default_max_lines sample_log). parse_log_line l \<noteq> Inl ValueError"
    using p by (simp add: sample_log_def default_max_lines_def)
  have h2: "\<forall>ev \<in> set (events (take default_max_lines sample_log)).
      fixed_offset_timestamp 19800 (fst ev) \<noteq> None"
    unfolding sample_events using k by simp
  have z: "\<forall>t. utc_timestamp t = fixed_offset_timestamp 0 t"
    by (simp add: utc_timestamp_def)
  then have h: "\<forall>ev \<in> set (events (take default_max_lines sample_log)).
      utc_timestamp (fst ev) = fixed_offset_timestamp 0 (fst ev)"
    by simp
  from loader_deterministic_up_to_time_zone
    [of default_max_lines sample_log utc_timestamp "fixed_offset_timestamp 0"] h
  have "load_cbs_log utc_timestamp sample_log default_max_lines
     = load_cbs_log (fixed_offset_timestamp 0) sample_log default_max_lines" by blast
  with sample_load have s0: "load_cbs_log (fixed_offset_timestamp 0) sample_log default_max_lines
     = Inr ([1705314600, 1705314602, 1705314604], [1, 2, 1], [2, 1, 2])" by simp
  note r = loader_deterministic_up_to_time_zone
    [of default_max_lines sample_log "fixed_offset_timestamp 19800" utc_timestamp]
  from r h1 h2 obtain ts ids fs
    where l: "load_cbs_log (fixed_offset_timestamp 19800) sample_log default_max_lines
      = Inr (ts, ids, fs)"
    by blast
  from r l sample_load have "ids = [1, 2, 1] \<and> fs = [2, 1, 2]" by blast
  with l sample_load_east have "load_cbs_log (fixed_offset_timestamp 19800) sample_log
      default_max_lines = Inr ([1705294800, 1705294802, 1705294804], [1, 2, 1], [2, 1, 2])"
    by simp
  with p k z sample_load s0 show ?thesis by blast
qed

section \<open>Threshold, labels and standardization\<close>

lemma count_above_sorted:
  fixes s :: "real list"
  assumes "sorted s" and "j < length s" and "s ! j \<le> t"
  shows "length (filter (\<lambda>e. e > t) s) + j < length s"
proof -
  have "filter (\<lambda>e. e > t) (take (Suc j) s) = []"
  proof -
    have "\<not> e > t" if "e \<in> set (take (Suc j) s)" for e
    proof -
      from that obtain k where k: "k < Suc j" "k < length s" "e = s ! k"
        by (auto simp: in_set_conv_nth)
      with assms(1,2) have "s ! k \<le> s ! j" by (simp add: sorted_nth_mono)
      with k assms(3) show ?thesis by simp
    qed
    then show ?thesis by (simp add: filter_empty_conv)
  qed
  moreover have "s = take (Suc j) s @ drop (Suc j) s" by simp
  ultimately have "filter (\<lambda>e. e > t) s = filter (\<lambda>e. e > t) (drop (Suc j) s)"
    by (metis append_Nil filter_append)
  then have "length (filter (\<lambda>e. e > t) s) \<le> length (drop (Suc j) s)"
    by (metis length_filter_le)
  with assms(2) show ?thesis by simp
qed

lemma count_labels:
  "length (filter (\<lambda>y. y = 1) (labels t errs)) = length (filter (\<lambda>e. e > t) (sort errs))"
proof -
  have "filter (\<lambda>y. y = 1) (labels t errs) = map (\<lambda>e. if e > t then 1 else 0) (filter (\<lambda>e. e > t) errs)"
    unfolding labels_def by (induction errs) auto
  then have "length (filter (\<lambda>y. y = 1) (labels t errs)) = length (filter (\<lambda>e. e > t) errs)"
    by simp
  also have "\<dots> = length (sort (filter (\<lambda>e. e > t) errs))" by simp
  also have "\<dots> = length (filter (\<lambda>e. e > t) (sort errs))" by (simp add: filter_sort)
  finally show ?thesis .
qed

lemma labels_nth:
  "i < length errs \<Longrightarrow> (labels t errs ! i = 1) = (errs ! i > t) \<and> (labels t errs ! i = 0) = (\<not> errs ! i > t)"
  by (simp add: labels_def)

text \<open>
  C5, in exact real arithmetic. For a training error vector that is not empty the three
  assignments yield a threshold and one label per row of either set. A row has label 1
  exactly when its error is greater than the threshold, and label 0 otherwise. The
  threshold is the interpolated value between the order statistics \<open>j\<close> and \<open>j + 1\<close> of
  the training errors and lies between them; at most \<open>n - 1 - j\<close> training rows have
  label 1, which is never more than 95 percent of them.
\<close>

theorem labels_follow_percentile_threshold:
  assumes "train_errors \<noteq> []"
  shows "\<exists>threshold y_train y_test.
           derive_labels train_errors test_errors = Some (threshold, y_train, y_test) \<and>
           length y_train = length train_errors \<and> length y_test = length test_errors \<and>
           (\<forall>i<length train_errors.
              (y_train ! i = 1) = (train_errors ! i > threshold) \<and>
              (y_train ! i = 0) = (\<not> train_errors ! i > threshold)) \<and>
           (\<forall>i<length test_errors.
              (y_test ! i = 1) = (test_errors ! i > threshold) \<and>
              (y_test ! i = 0) = (\<not> test_errors ! i > threshold)) \<and>
           (let s = sort train_errors; n = length train_errors; j = (95 * (n - 1)) div 100;
                g = real ((95 * (n - 1)) mod 100) / 100
            in threshold = s ! j + g * (s ! min (j + 1) (n - 1) - s ! j) \<and>
               s ! j \<le> threshold \<and> threshold \<le> s ! min (j + 1) (n - 1) \<and>
               length (filter (\<lambda>y. y = 1) y_train) + j < n) \<and>
           \<not> real (length (filter (\<lambda>y. y = 1) y_train)) > 0.95 * real (length train_errors)"
proof -
  define s where "s = sort train_errors"
  define n where "n = length train_errors"
  define j where "j = (95 * (n - 1)) div 100"
  define g where "g = real ((95 * (n - 1)) mod 100) / 100"
  define threshold where "threshold = s ! j + g * (s ! min (j + 1) (n - 1) - s ! j)"
  define y_train where "y_train = labels threshold train_errors"
  define y_test where "y_test = labels threshold test_errors"
  define c where "c = length (filter (\<lambda>y. y = 1) y_train)"
  from assms have p: "percentile95 train_errors = Some threshold"
    by (simp add: percentile95_def Let_def threshold_def s_def n_def j_def g_def)
  then have d: "derive_labels train_errors test_errors = Some (threshold, y_train, y_test)"
    by (simp add: derive_labels_def y_train_def y_test_def)
  have thr: "threshold = s ! j + g * (s ! min (j + 1) (n - 1) - s ! j)"
    by (rule threshold_def)
  from assms have n: "1 \<le> n" by (cases train_errors) (simp_all add: n_def)
  have srt: "sorted s" and len: "length s = n" by (simp_all add: s_def n_def)
  have dm: "95 * (n - 1) = 100 * j + (95 * (n - 1)) mod 100"
    unfolding j_def by (rule mult_div_mod_eq [symmetric])
  then have "100 * j \<le> 95 * (n - 1)" by linarith
  with n have j: "j < n" by linarith
  have "(95 * (n - 1)) mod 100 \<le> 100" by simp
  then have "real ((95 * (n - 1)) mod 100) \<le> 100" by (metis of_nat_le_iff of_nat_numeral)
  then have g: "0 \<le> g" "g \<le> 1" by (simp_all add: g_def)
  have le: "s ! j \<le> s ! min (j + 1) (n - 1)"
    using srt len j n by (intro sorted_nth_mono) auto
  have lo: "s ! j \<le> threshold"
    unfolding thr using g(1) le by simp
  have "g * (s ! min (j + 1) (n - 1) - s ! j) \<le> 1 * (s ! min (j + 1) (n - 1) - s ! j)"
    using g(2) le by (intro mult_right_mono) simp_all
  then have hi: "threshold \<le> s ! min (j + 1) (n - 1)"
    unfolding thr by simp
  have "c = length (filter (\<lambda>e. e > threshold) s)"
    unfolding c_def s_def y_train_def by (rule count_labels)
  moreover have "length (filter (\<lambda>e. e > threshold) s) + j < length s"
    using srt _ lo by (rule count_above_sorted) (simp add: len j)
  ultimately have cnt: "c + j < n" by (simp only: len)
  have "(95 * (n - 1)) mod 100 < 100" by simp
  with dm have "95 * (n - 1) < 100 * j + 100" by linarith
  with cnt n have "100 * c \<le> 95 * n" by linarith
  then have "100 * real c \<le> 95 * real n"
    by (metis of_nat_le_iff of_nat_mult of_nat_numeral)
  then have bound: "\<not> real c > 0.95 * real n" by simp
  from labels_nth have l1: "\<forall>i<length train_errors.
            (y_train ! i = 1) = (train_errors ! i > threshold) \<and>
            (y_train ! i = 0) = (\<not> train_errors ! i > threshold)"
    unfolding y_train_def by blast
  from labels_nth have l2: "\<forall>i<length test_errors.
            (y_test ! i = 1) = (test_errors ! i > threshold) \<and>
            (y_test ! i = 0) = (\<not> test_errors ! i > threshold)"
    unfolding y_test_def by blast
  have n1: "length y_train = length train_errors" and n2: "length y_test = length test_errors"
    by (simp_all add: y_train_def y_test_def labels_def)
  have "derive_labels train_errors test_errors = Some (threshold, y_train, y_test) \<and>
           length y_train = length train_errors \<and> length y_test = length test_errors \<and>
           (\<forall>i<length train_errors.
              (y_train ! i = 1) = (train_errors ! i > threshold) \<and>
              (y_train ! i = 0) = (\<not> train_errors ! i > threshold)) \<and>
           (\<forall>i<length test_errors.
              (y_test ! i = 1) = (test_errors ! i > threshold) \<and>
              (y_test ! i = 0) = (\<not> test_errors ! i > threshold)) \<and>
           (let s = sort train_errors; n = length train_errors; j = (95 * (n - 1)) div 100;
                g = real ((95 * (n - 1)) mod 100) / 100
            in threshold = s ! j + g * (s ! min (j + 1) (n - 1) - s ! j) \<and>
               s ! j \<le> threshold \<and> threshold \<le> s ! min (j + 1) (n - 1) \<and>
               length (filter (\<lambda>y. y = 1) y_train) + j < n) \<and>
           \<not> real (length (filter (\<lambda>y. y = 1) y_train)) > 0.95 * real (length train_errors)"
    using d n1 n2 l1 l2 thr lo hi cnt bound
    unfolding Let_def s_def [symmetric] n_def [symmetric] j_def [symmetric] g_def [symmetric]
      c_def [symmetric]
    by (intro conjI)
  then show ?thesis by blast
qed

lemma sample_derive_labels:
  "derive_labels [3, 1] [5, 1 / 2, 29 / 10] = Some (29 / 10, [1, 0], [1, 0, 0])"
  by (simp add: derive_labels_def percentile95_def labels_def)

theorem labels_follow_percentile_threshold_witness:
  "[3, 1 :: real] \<noteq> [] \<and>
   derive_labels [3, 1] [5, 1 / 2, 29 / 10] = Some (29 / 10, [1, 0], [1, 0, 0]) \<and>
   \<not> real (length (filter (\<lambda>y. y = 1) [1, 0 :: nat])) > 0.95 * real (length [3, 1 :: real])"
proof -
  have ne: "[3, 1 :: real] \<noteq> []" by simp
  from labels_follow_percentile_threshold [OF ne, of "[5, 1 / 2, 29 / 10]"]
  obtain threshold y_train y_test where
    d: "derive_labels [3, 1] [5, 1 / 2, 29 / 10] = Some (threshold, y_train, y_test)"
    and b: "\<not> real (length (filter (\<lambda>y. y = 1) y_train)) > 0.95 * real (length [3, 1 :: real])"
    by blast
  from d sample_derive_labels have "y_train = [1, 0]" by simp
  with b ne sample_derive_labels show ?thesis by blast
qed

lemma sum_list_shift: "sum_list (map (\<lambda>x. x - (c::real)) xs) = sum_list xs - real (length xs) * c"
  by (induction xs) (simp_all add: algebra_simps)

lemma sum_list_divide: "sum_list (map (\<lambda>x. f x / (c::real)) xs) = sum_list (map f xs) / c"
  by (induction xs) (simp_all add: add_divide_distrib)

lemma mean_standardized:
  assumes "xs \<noteq> []"
  shows "mean (standardized xs) = 0"
proof -
  from assms have n: "real (length xs) \<noteq> 0" by simp
  have "sum_list (map (\<lambda>x. x - mean xs) xs) = sum_list xs - real (length xs) * mean xs"
    by (rule sum_list_shift)
  also have "\<dots> = 0" using n by (simp add: mean_def)
  finally have z: "sum_list (map (\<lambda>x. x - mean xs) xs) = 0" .
  have "sum_list (standardized xs) = sum_list (map (\<lambda>x. x - mean xs) xs) / scale_of xs"
    unfolding standardized_def by (rule sum_list_divide)
  with z show ?thesis by (simp add: mean_def)
qed

lemma variance_nonneg: "0 \<le> variance xs"
proof -
  have "0 \<le> sum_list (map (\<lambda>x. (x - mean xs)\<^sup>2) xs)"
    by (rule sum_list_nonneg) auto
  then show ?thesis by (simp add: variance_def mean_def)
qed

lemma variance_standardized:
  assumes "xs \<noteq> []"
  shows "variance (standardized xs) = (if near_constant xs then variance xs else 1)"
proof -
  let ?s = "scale_of xs"
  have m: "mean (standardized xs) = 0" using assms by (rule mean_standardized)
  have "variance (standardized xs) = mean (map (\<lambda>z. z\<^sup>2) (standardized xs))"
    by (simp add: variance_def m)
  also have "\<dots> = mean (map (\<lambda>x. (x - mean xs)\<^sup>2 / ?s\<^sup>2) xs)"
    by (simp add: standardized_def comp_def power_divide)
  also have "\<dots> = variance xs / ?s\<^sup>2"
    unfolding mean_def variance_def by (simp add: sum_list_divide)
  finally have v: "variance (standardized xs) = variance xs / ?s\<^sup>2" .
  show ?thesis
  proof (cases "near_constant xs")
    case True
    with v show ?thesis by (simp add: scale_of_def)
  next
    case False
    have "variance xs \<noteq> 0"
    proof
      assume "variance xs = 0"
      then have "near_constant xs" by (simp add: near_constant_def)
      with False show False by simp
    qed
    with variance_nonneg [of xs] False have "?s\<^sup>2 = variance xs" "variance xs \<noteq> 0"
      by (simp_all add: scale_of_def)
    with v False show ?thesis by simp
  qed
qed

lemma column_fit_transform:
  assumes "fit_transform X = Inr Z" and "\<forall>row \<in> set X. j < length row"
  shows "column j Z = standardized (column j X)"
proof -
  from assms(1) have Z: "Z = map (\<lambda>row. map (\<lambda>k. (row ! k - mean (column k X)) / scale_of (column k X))
                              [0..<length row]) X"
    by (auto simp: fit_transform_def split: if_splits)
  have "column j Z = map (\<lambda>row. (row ! j - mean (column j X)) / scale_of (column j X)) X"
    unfolding Z column_def using assms(2) by (simp add: comp_def)
  also have "\<dots> = standardized (column j X)"
    by (simp add: standardized_def column_def comp_def)
  finally show ?thesis .
qed

lemma load_lengths:
  assumes "load_cbs_log tz file max_lines = Inr (ts, ids, fs)"
  shows "length ts = length (events (take max_lines file)) \<and> length ids = length ts \<and>
         length fs = length ts"
proof -
  from load_cbs_log_Inr [OF assms] obtain st
    where s: "scan tz max_lines 0 file empty_state = Inr st"
      and o: "ts = timestamps st" "ids = error_codes st" "fs = map (count_list ids) ids"
    by blast
  note t = scan_from_empty [OF s]
  from t have "map Some ts = map (\<lambda>ev. tz (fst ev)) (events (take max_lines file))"
    unfolding tracks_def o(1) by blast
  then have a: "length ts = length (events (take max_lines file))" by (metis length_map)
  from t have "list_all2 (\<lambda>ev k. map_of (error_map st) (snd ev) = Some k)
      (events (take max_lines file)) ids"
    unfolding tracks_def o(2) by blast
  then have b: "length ids = length (events (take max_lines file))"
    by (metis list_all2_lengthD)
  from a b o(3) show ?thesis by simp
qed

lemma column_stack_rows:
  "\<forall>row \<in> set (column_stack (ts, ids, fs)). length row = 3"
  by (auto simp: column_stack_def)

lemma column_stack_columns:
  assumes "length ids = length ts" and "length fs = length ts"
  shows "column 0 (column_stack (ts, ids, fs)) = ts"
    and "column 1 (column_stack (ts, ids, fs)) = map real ids"
    and "column 2 (column_stack (ts, ids, fs)) = map real fs"
proof -
  show "column 0 (column_stack (ts, ids, fs)) = ts"
    by (simp add: column_def column_stack_def comp_def map_nth)
  have "map (\<lambda>i. real (ids ! i)) [0..<length ids] = map real ids"
    by (rule nth_equalityI) simp_all
  then show "column 1 (column_stack (ts, ids, fs)) = map real ids"
    using assms(1) by (simp add: column_def column_stack_def comp_def)
  have "map (\<lambda>i. real (fs ! i)) [0..<length fs] = map real fs"
    by (rule nth_equalityI) simp_all
  then show "column 2 (column_stack (ts, ids, fs)) = map real fs"
    using assms(2) by (simp add: column_def column_stack_def comp_def)
qed

lemma fit_transform_rows:
  assumes "fit_transform X = Inr Z"
  shows "length Z = length X" and "\<forall>i<length X. length (Z ! i) = length (X ! i)"
  using assms by (auto simp: fit_transform_def split: if_splits)

text \<open>
  C2, as the code has it, in exact real arithmetic. The loader's three sequences are
  stacked and the scaler is fitted on the whole matrix, before the split. With at least
  one event and no line that raises, the matrix \<open>X\<close> of line 91 exists; it has one row of
  three entries per event; its columns are the scaled timestamps, IDs and frequencies;
  each column has mean 0, and variance 1 unless the scaler takes the column for a constant
  one, where the column is only centred and its variance stays what it was. Nothing of
  the kind holds for the rows of the training split.
\<close>

theorem standardized_full_matrix_columns:
  "((\<forall>l \<in> set (take max_lines file). parse_log_line l \<noteq> Inl ValueError) \<and>
    (\<forall>ev \<in> set (events (take max_lines file)). tz (fst ev) \<noteq> None) \<and>
    events (take max_lines file) \<noteq> []
    \<longrightarrow> (\<exists>Z. feature_matrix tz file max_lines = Inr Z)) \<and>
   (\<forall>Z. feature_matrix tz file max_lines = Inr Z \<longrightarrow>
      (\<exists>ts ids fs.
         load_cbs_log tz file max_lines = Inr (ts, ids, fs) \<and>
         length Z = length (events (take max_lines file)) \<and>
         (\<forall>i<length Z. length (Z ! i) = 3) \<and>
         column 0 Z = standardized ts \<and>
         column 1 Z = standardized (map real ids) \<and>
         column 2 Z = standardized (map real fs) \<and>
         (\<forall>j<3. mean (column j Z) = 0 \<and>
            variance (column j Z) =
              (if near_constant (column j (column_stack (ts, ids, fs)))
               then variance (column j (column_stack (ts, ids, fs))) else 1))))"
proof (intro conjI allI impI)
  assume h: "(\<forall>l \<in> set (take max_lines file). parse_log_line l \<noteq> Inl ValueError) \<and>
    (\<forall>ev \<in> set (events (take max_lines file)). tz (fst ev) \<noteq> None) \<and>
    events (take max_lines file) \<noteq> []"
  with load_cbs_log_returns obtain ts ids fs
    where l: "load_cbs_log tz file max_lines = Inr (ts, ids, fs)" by blast
  from load_lengths [OF l] h have "ts \<noteq> []" by auto
  then have "column_stack (ts, ids, fs) \<noteq> []" by (simp add: column_stack_def)
  then have "\<exists>Z. fit_transform (column_stack (ts, ids, fs)) = Inr Z"
    by (simp add: fit_transform_def)
  with l show "\<exists>Z. feature_matrix tz file max_lines = Inr Z"
    by (simp add: feature_matrix_def)
next
  fix Z
  assume f: "feature_matrix tz file max_lines = Inr Z"
  then obtain cols where c: "load_cbs_log tz file max_lines = Inr cols"
    and z0: "fit_transform (column_stack cols) = Inr Z"
    by (auto simp: feature_matrix_def split: sum.splits)
  obtain ts ids fs where cols: "cols = (ts, ids, fs)" by (cases cols) auto
  note l = c [unfolded cols] and z = z0 [unfolded cols]
  let ?X = "column_stack (ts, ids, fs)"
  note n = load_lengths [OF l]
  from n have k: "length ids = length ts" "length fs = length ts" by simp_all
  note cs = column_stack_columns [OF k]
  have lx: "length ?X = length ts" by (simp add: column_stack_def)
  from z have ne: "?X \<noteq> []" by (auto simp: fit_transform_def split: if_splits)
  have len: "length Z = length (events (take max_lines file))"
    using fit_transform_rows(1) [OF z] lx n by simp
  have rows: "\<forall>i<length Z. length (Z ! i) = 3"
  proof (intro allI impI)
    fix i assume "i < length Z"
    with fit_transform_rows [OF z] have i: "i < length ?X" "length (Z ! i) = length (?X ! i)"
      by simp_all
    from i(1) have "?X ! i \<in> set ?X" by (rule nth_mem)
    with column_stack_rows have "length (?X ! i) = 3" by blast
    with i(2) show "length (Z ! i) = 3" by simp
  qed
  have col: "column j Z = standardized (column j ?X)" if "j < 3" for j
  proof -
    from that column_stack_rows have "\<forall>row \<in> set ?X. j < length row" by fastforce
    from column_fit_transform [OF z this] show ?thesis .
  qed
  have c0: "column 0 Z = standardized ts" using col [of 0] cs(1) by simp
  have c1: "column 1 Z = standardized (map real ids)" using col [of 1] cs(2) by simp
  have c2: "column 2 Z = standardized (map real fs)" using col [of 2] cs(3) by simp
  have mv: "\<forall>j<3. mean (column j Z) = 0 \<and>
            variance (column j Z) =
              (if near_constant (column j ?X) then variance (column j ?X) else 1)"
  proof (intro allI impI)
    fix j :: nat assume j: "j < 3"
    from ne have cne: "column j ?X \<noteq> []" by (simp add: column_def)
    from col [OF j] mean_standardized [OF cne] variance_standardized [OF cne]
    show "mean (column j Z) = 0 \<and>
            variance (column j Z) =
              (if near_constant (column j ?X) then variance (column j ?X) else 1)"
      by simp
  qed
  from l len rows c0 c1 c2 mv
  show "\<exists>ts ids fs.
         load_cbs_log tz file max_lines = Inr (ts, ids, fs) \<and>
         length Z = length (events (take max_lines file)) \<and>
         (\<forall>i<length Z. length (Z ! i) = 3) \<and>
         column 0 Z = standardized ts \<and>
         column 1 Z = standardized (map real ids) \<and>
         column 2 Z = standardized (map real fs) \<and>
         (\<forall>j<3. mean (column j Z) = 0 \<and>
            variance (column j Z) =
              (if near_constant (column j (column_stack (ts, ids, fs)))
               then variance (column j (column_stack (ts, ids, fs))) else 1))"
    by blast
qed

lemma two_event_load:
  "load_cbs_log utc_timestamp two_event_log default_max_lines
     = Inr ([1705314600, 1705314602], [1, 1], [2, 2])"
  by (simp add: two_event_log_def default_max_lines_def parser_eval loader_eval)

lemma two_event_matrix:
  "column_stack ([1705314600, 1705314602], [1, 1], [2, 2])
     = [[1705314600, 1, 2], [1705314602, 1, 2]]"
  by (simp add: column_stack_def upt_rec)

lemma two_event_scales:
  "scale_of [1705314600, 1705314602] = 1" "scale_of [1, 1] = 1" "scale_of [2, 2] = 1"
  "\<not> near_constant [1705314600, 1705314602]" "near_constant [1, 1]" "near_constant [2, 2]"
  by (simp_all add: scale_of_def near_constant_def float_eps_def mean_def variance_def
      power2_eq_square)

lemma two_event_scaled:
  "fit_transform [[1705314600, 1, 2], [1705314602, 1, 2]] = Inr [[-1, 0, 0], [1, 0, 0]]"
  by (simp add: fit_transform_def column_def two_event_scales mean_def upt_rec)

lemma two_event_features:
  "feature_matrix utc_timestamp two_event_log default_max_lines = Inr [[-1, 0, 0], [1, 0, 0]]"
  unfolding feature_matrix_def two_event_load
  by (simp only: sum.case two_event_matrix two_event_scaled)

lemma two_event_events:
  "events (take default_max_lines two_event_log)
     = [(\<lparr>year = 2024, month = 1, day = 15, hour = 10, minute = 30, second = 0\<rparr>, ''Error''),
        (\<lparr>year = 2024, month = 1, day = 15, hour = 10, minute = 30, second = 2\<rparr>, ''Error'')]"
  by (simp add: two_event_log_def default_max_lines_def events_Cons parser_eval)

text \<open>
  The claim as stated fails. For two events \<open>train_test_split\<close> keeps one row for training
  and one for the test. Whichever row it keeps, the timestamp column of the training set
  has mean -1 or 1 and variance 0; the ID column, constant in this log, has variance 0
  over the whole matrix already.
\<close>

theorem training_split_not_standardized_counterexample:
  "feature_matrix utc_timestamp two_event_log default_max_lines
     = Inr [[-1, 0, 0], [1, 0, 0]] \<and>
   mean (column 0 (train_rows [0] [[-1, 0, 0], [1, 0, 0]])) = -1 \<and>
   variance (column 0 (train_rows [0] [[-1, 0, 0], [1, 0, 0]])) = 0 \<and>
   mean (column 0 (train_rows [1] [[-1, 0, 0], [1, 0, 0]])) = 1 \<and>
   variance (column 0 (train_rows [1] [[-1, 0, 0], [1, 0, 0]])) = 0 \<and>
   variance (column 1 [[-1, 0, 0], [1, 0, 0]]) = 0"
proof -
  have "mean (column 0 (train_rows [0] [[-1, 0, 0], [1, 0, 0]])) = -1"
    "variance (column 0 (train_rows [0] [[-1, 0, 0], [1, 0, 0]])) = 0"
    "mean (column 0 (train_rows [1] [[-1, 0, 0], [1, 0, 0]])) = 1"
    "variance (column 0 (train_rows [1] [[-1, 0, 0], [1, 0, 0]])) = 0"
    "variance (column 1 [[-1, 0, 0], [1, 0, 0]]) = 0"
    by (simp_all add: train_rows_def column_def mean_def variance_def)
  then show ?thesis using two_event_features by blast
qed

theorem standardized_full_matrix_columns_witness:
  "parse_log_line (two_event_log ! 0) \<noteq> Inl ValueError \<and>
   parse_log_line (two_event_log ! 1) \<noteq> Inl ValueError \<and>
   utc_timestamp \<lparr>year = 2024, month = 1, day = 15, hour = 10, minute = 30, second = 0\<rparr>
     = Some 1705314600 \<and>
   utc_timestamp \<lparr>year = 2024, month = 1, day = 15, hour = 10, minute = 30, second = 2\<rparr>
     = Some 1705314602 \<and>
   length (events (take default_max_lines two_event_log)) = 2 \<and>
   feature_matrix utc_timestamp two_event_log default_max_lines = Inr [[-1, 0, 0], [1, 0, 0]] \<and>
   load_cbs_log utc_timestamp two_event_log default_max_lines
     = Inr ([1705314600, 1705314602], [1, 1], [2, 2]) \<and>
   \<not> near_constant [1705314600, 1705314602] \<and> near_constant [1, 1] \<and>
   mean (column 0 [[-1, 0, 0], [1, 0, 0]]) = 0 \<and>
   variance (column 0 [[-1, 0, 0], [1, 0, 0]]) = 1 \<and>
   mean (column 1 [[-1, 0, 0], [1, 0, 0]]) = 0 \<and>
   variance (column 1 [[-1, 0, 0], [1, 0, 0]]) = variance [1, 1] \<and>
   variance [1, 1 :: real] = 0"
proof -
  have p: "parse_log_line (two_event_log ! 0) \<noteq> Inl ValueError"
    "parse_log_line (two_event_log ! 1) \<noteq> Inl ValueError"
    by (simp_all add: two_event_log_def parser_eval)
  have z: "utc_timestamp \<lparr>year = 2024, month = 1, day = 15, hour = 10, minute = 30, second = 0\<rparr>
     = Some 1705314600"
    "utc_timestamp \<lparr>year = 2024, month = 1, day = 15, hour = 10, minute = 30, second = 2\<rparr>
     = Some 1705314602"
    by (simp_all add: loader_eval days_in_month_def is_leap_def)
  have h1: "\<forall>l \<in> set (take default_max_lines two_event_log). parse_log_line l \<noteq> Inl ValueError"
    using p by (simp add: two_event_log_def default_max_lines_def)
  have h2: "\<forall>ev \<in> set (events (take default_max_lines two_event_log)).
      utc_timestamp (fst ev) \<noteq> None"
    unfolding two_event_events using z by simp
  have h3: "events (take default_max_lines two_event_log) \<noteq> []"
    unfolding two_event_events by simp
  have n: "length (events (take default_max_lines two_event_log)) = 2"
    unfolding two_event_events by simp
  note r = standardized_full_matrix_columns [of default_max_lines two_event_log utc_timestamp]
  from r h1 h2 h3 obtain Z
    where f: "feature_matrix utc_timestamp two_event_log default_max_lines = Inr Z"
    by blast
  with two_event_features have Z: "Z = [[-1, 0, 0], [1, 0, 0]]" by simp
  from r f obtain ts ids fs where l: "load_cbs_log utc_timestamp two_event_log default_max_lines
       = Inr (ts, ids, fs)"
    and mv: "\<forall>j<3. mean (column j Z) = 0 \<and>
            variance (column j Z) =
              (if near_constant (column j (column_stack (ts, ids, fs)))
               then variance (column j (column_stack (ts, ids, fs))) else 1)"
    by blast
  from l two_event_load have e: "ts = [1705314600, 1705314602]" "ids = [1, 1]" "fs = [2, 2]"
    by simp_all
  have c: "column 0 [[1705314600, 1, 2], [1705314602, 1, 2 :: real]] = [1705314600, 1705314602]"
    "column 1 [[1705314600, 1, 2], [1705314602, 1, 2 :: real]] = [1, 1]"
    by (simp_all add: column_def)
  have lt: "(0::nat) < 3" "(1::nat) < 3" by simp_all
  note m0 = mv [rule_format, OF lt(1), unfolded e Z two_event_matrix c]
    and m1 = mv [rule_format, OF lt(2), unfolded e Z two_event_matrix c]
  from m0 have "mean (column 0 [[-1, 0, 0], [1, 0, 0]]) = 0"
    and "variance (column 0 [[-1, 0, 0], [1, 0, 0]]) = 1"
    by (simp_all add: two_event_scales)
  moreover from m1 have "mean (column 1 [[-1, 0, 0], [1, 0, 0]]) = 0"
    and "variance (column 1 [[-1, 0, 0], [1, 0, 0]]) = variance [1, 1]"
    by (simp_all add: two_event_scales)
  moreover have "variance [1, 1 :: real] = 0" by (simp add: variance_def mean_def)
  ultimately have "mean (column 0 [[-1, 0, 0], [1, 0, 0]]) = 0"
    and "variance (column 0 [[-1, 0, 0], [1, 0, 0]]) = 1"
    and "mean (column 1 [[-1, 0, 0], [1, 0, 0]]) = 0"
    and "variance (column 1 [[-1, 0, 0], [1, 0, 0]]) = variance [1, 1]"
    and "variance [1, 1 :: real] = 0"
    by blast+
  with p z n two_event_features two_event_load two_event_scales show ?thesis by blast
qed

end
